theory Spec2Isabelle
  imports Complex_Main
begin

section \<open>Conventions of the embedding\<close>

text \<open>
  The mesh library is written over \<open>real_t = double\<close> and \<open>index_t = int\<close>. Vertex,
  element and facet numbers that the code keeps in \<open>int\<close> variables are \<^typ>\<open>int\<close>
  here (the code stores the sentinel \<open>-1\<close> in them); sizes and loop counters of type
  \<open>size_t\<close> are \<^typ>\<open>nat\<close>. Floating-point numbers are idealised as \<^typ>\<open>real\<close>:
  rounding is not modelled, and a place where IEEE arithmetic would leave the finite
  numbers (a division by zero whose result is used) is the outcome \<open>NonFinite\<close>,
  except where the code itself tests for NaN, which is modelled case by case.

  A \<open>std::set\<close> is the list of its elements in iteration (ascending) order, with
  insertion keeping that order; a \<open>std::vector\<close> or \<open>std::deque\<close> is a list. A failed
  \<open>assert\<close>, a read or write outside an array and the use of a variable that was
  never assigned are outcomes of their own.
\<close>

datatype error = AssertionFailed | OutOfRange | NonFinite | Uninitialised

definition ebind :: "error + 'a \<Rightarrow> ('a \<Rightarrow> error + 'b) \<Rightarrow> error + 'b" where
  "ebind m f = (case m of Inl e \<Rightarrow> Inl e | Inr x \<Rightarrow> f x)"

definition read_at :: "'a list \<Rightarrow> nat \<Rightarrow> error + 'a" where
  "read_at xs i = (if i < length xs then Inr (xs ! i) else Inl OutOfRange)"

definition read_int :: "'a list \<Rightarrow> int \<Rightarrow> error + 'a" where
  "read_int xs i = (if 0 \<le> i \<and> nat i < length xs then Inr (xs ! nat i) else Inl OutOfRange)"

text \<open>\<open>std::set::insert\<close> on the ascending list of elements.\<close>

fun set_insert :: "'a::linorder \<Rightarrow> 'a list \<Rightarrow> 'a list" where
  "set_insert x [] = [x]"
| "set_insert x (y # ys) =
     (if x < y then x # y # ys else if x = y then y # ys else y # set_insert x ys)"

text \<open>\<open>std::set::count\<close>.\<close>

definition set_count :: "'a list \<Rightarrow> 'a \<Rightarrow> nat" where
  "set_count xs x = (if x \<in> set xs then 1 else 0)"

section \<open>Surface (Surface.h)\<close>

text \<open>
  The members of \<open>class Surface\<close> that the queries read. \<open>SNEList\<close> is a
  \<open>std::map<int, std::set<size_t> >\<close> read with \<open>operator[]\<close>, which yields the empty
  set for a key that is not present; it is the function from the key to the ascending
  list of facet numbers.
\<close>

record surface =
  ndims :: nat
  surface_nodes :: "int list"
  SNEList :: "int \<Rightarrow> nat list"
  coplanar_ids :: "int list"

text \<open>
  The loop \<open>for(it=SNEList[nid].begin(); ...) incident_plane.insert(coplanar_ids[*it])\<close>,
  shared by \<open>is_corner_vertex\<close> and \<open>is_collapsible\<close>.
\<close>

fun incident_plane_loop :: "int list \<Rightarrow> nat list \<Rightarrow> int list \<Rightarrow> error + int list" where
  "incident_plane_loop ids [] acc = Inr acc"
| "incident_plane_loop ids (f # fs) acc =
     ebind (read_at ids f) (\<lambda>c. incident_plane_loop ids fs (set_insert c acc))"

definition incident_plane :: "surface \<Rightarrow> int \<Rightarrow> error + int list" where
  "incident_plane s nid = incident_plane_loop (coplanar_ids s) (SNEList s nid) []"

definition contains_node :: "surface \<Rightarrow> int \<Rightarrow> bool" where
  "contains_node s nid = (set_count (surface_nodes s) nid > 0)"

definition is_corner_vertex :: "surface \<Rightarrow> int \<Rightarrow> error + bool" where
  "is_corner_vertex s nid =
     ebind (incident_plane s nid) (\<lambda>incident_plane. Inr (length incident_plane \<ge> ndims s))"

definition is_collapsible :: "surface \<Rightarrow> int \<Rightarrow> int \<Rightarrow> error + bool" where
  "is_collapsible s nid_free nid_target =
     (if set_count (surface_nodes s) nid_free = 0 then Inr True
      else ebind (incident_plane s nid_free) (\<lambda>incident_plane_free.
        if length incident_plane_free \<ge> ndims s then Inr False
        else ebind (incident_plane s nid_target) (\<lambda>incident_plane_target.
          if length incident_plane_free = 2 then
            Inr (set_count incident_plane_target (hd incident_plane_free) \<noteq> 0
                 \<and> set_count incident_plane_target (last incident_plane_free) \<noteq> 0)
          else if length incident_plane_free \<noteq> 1 then Inl AssertionFailed
          else Inr (set_count incident_plane_target (hd incident_plane_free) \<noteq> 0))))"

text \<open>
  The set \<open>P(v)\<close> of the specification: the distinct coplanar patch ids of the facets
  incident to \<open>v\<close>.
\<close>

definition patch_ids :: "surface \<Rightarrow> int \<Rightarrow> int set" where
  "patch_ids s v = (\<lambda>f. coplanar_ids s ! f) ` set (SNEList s v)"

text \<open>Every facet number recorded for \<open>v\<close> indexes \<open>coplanar_ids\<close>.\<close>

definition facets_in_range :: "surface \<Rightarrow> int \<Rightarrow> bool" where
  "facets_in_range s v = list_all (\<lambda>f. f < length (coplanar_ids s)) (SNEList s v)"

subsection \<open>Facet normals\<close>

text \<open>
  \<open>get_x\<close>, \<open>get_y\<close>, \<open>get_z\<close> read \<open>_mesh->_coords[nid*_ndims + k]\<close>.
\<close>

definition get_x :: "nat \<Rightarrow> real list \<Rightarrow> int \<Rightarrow> error + real" where
  "get_x nd coords nid = read_int coords (nid * int nd)"

definition get_y :: "nat \<Rightarrow> real list \<Rightarrow> int \<Rightarrow> error + real" where
  "get_y nd coords nid = read_int coords (nid * int nd + 1)"

definition get_z :: "nat \<Rightarrow> real list \<Rightarrow> int \<Rightarrow> error + real" where
  "get_z nd coords nid = read_int coords (nid * int nd + 2)"

text \<open>
  The two-dimensional branch of \<open>calculate_coplanar_ids\<close> for one facet with end
  points \<open>(x0, y0)\<close> and \<open>(x1, y1)\<close>:
  \<^verbatim>\<open>
  normals[i*2] = sqrt(1 - pow((x1 - x0)/(y1 - y0), 2));
  if(isnan(normals[i*2])){ normals[i*2] = 0; normals[i*2+1] = 1; }
  else{ normals[i*2+1] = sqrt(1 - pow(normals[i*2], 2)); }
  if(y1 - y0 > 0) normals[i*2] *= -1;
  if(x0 - x1 > 0) normals[i*2+1] *= -1;
  \<close>
  The first square root is NaN in exactly two cases: \<open>y1 - y0 = 0\<close> (the quotient is
  infinite or NaN, so is its square, and the root of \<open>1 - \<infinity>\<close> is NaN), or the
  argument \<open>1 - ((x1 - x0)/(y1 - y0))\<^sup>2\<close> is negative.
\<close>

definition normal_2d :: "real \<Rightarrow> real \<Rightarrow> real \<Rightarrow> real \<Rightarrow> real \<times> real" where
  "normal_2d x0 y0 x1 y1 =
     (let is_nan = (y1 - y0 = 0 \<or> 1 - ((x1 - x0) / (y1 - y0))\<^sup>2 < 0);
          n0 = (if is_nan then 0 else sqrt (1 - ((x1 - x0) / (y1 - y0))\<^sup>2));
          n1 = (if is_nan then 1 else sqrt (1 - n0\<^sup>2));
          n0 = (if y1 - y0 > 0 then n0 * (-1) else n0);
          n1 = (if x0 - x1 > 0 then n1 * (-1) else n1)
      in (n0, n1))"

fun normals_2d_loop :: "real list \<Rightarrow> int list \<Rightarrow> nat list \<Rightarrow> error + real list" where
  "normals_2d_loop coords SENList [] = Inr []"
| "normals_2d_loop coords SENList (i # is) =
     ebind (read_at SENList (2 * i)) (\<lambda>a.
     ebind (read_at SENList (2 * i + 1)) (\<lambda>b.
     ebind (get_x 2 coords a) (\<lambda>x0.
     ebind (get_y 2 coords a) (\<lambda>y0.
     ebind (get_x 2 coords b) (\<lambda>x1.
     ebind (get_y 2 coords b) (\<lambda>y1.
     ebind (normals_2d_loop coords SENList is) (\<lambda>rest.
       Inr (fst (normal_2d x0 y0 x1 y1) # snd (normal_2d x0 y0 x1 y1) # rest))))))))"

text \<open>
  The three-dimensional branch: the cross product of two edge vectors, scaled by
  \<open>invmag = 1/sqrt(...)\<close>. A facet of zero area makes \<open>invmag\<close> infinite.
\<close>

definition normal_3d ::
  "real \<times> real \<times> real \<Rightarrow> real \<times> real \<times> real \<Rightarrow> real \<times> real \<times> real \<Rightarrow> error + real list" where
  "normal_3d p0 p1 p2 =
     (case (p0, p1, p2) of ((ax, ay, az), (bx, by, bz), (cx, cy, cz)) \<Rightarrow>
      let x1 = bx - ax; y1 = by - ay; z1 = bz - az;
          x2 = cx - ax; y2 = cy - ay; z2 = cz - az;
          n0 = y1 * z2 - y2 * z1;
          n1 = - x1 * z2 + x2 * z1;
          n2 = x1 * y2 - x2 * y1;
          mag = sqrt (n0 * n0 + n1 * n1 + n2 * n2)
      in if mag = 0 then Inl NonFinite
         else Inr [n0 * (1 / mag), n1 * (1 / mag), n2 * (1 / mag)])"

definition get_xyz :: "real list \<Rightarrow> int \<Rightarrow> error + real \<times> real \<times> real" where
  "get_xyz coords nid =
     ebind (get_x 3 coords nid) (\<lambda>x.
     ebind (get_y 3 coords nid) (\<lambda>y.
     ebind (get_z 3 coords nid) (\<lambda>z. Inr (x, y, z))))"

fun normals_3d_loop :: "real list \<Rightarrow> int list \<Rightarrow> nat list \<Rightarrow> error + real list" where
  "normals_3d_loop coords SENList [] = Inr []"
| "normals_3d_loop coords SENList (i # is) =
     ebind (read_at SENList (3 * i)) (\<lambda>a.
     ebind (read_at SENList (3 * i + 1)) (\<lambda>b.
     ebind (read_at SENList (3 * i + 2)) (\<lambda>c.
     ebind (get_xyz coords a) (\<lambda>p0.
     ebind (get_xyz coords b) (\<lambda>p1.
     ebind (get_xyz coords c) (\<lambda>p2.
     ebind (normal_3d p0 p1 p2) (\<lambda>n.
     ebind (normals_3d_loop coords SENList is) (\<lambda>rest. Inr (n @ rest)))))))))"

text \<open>\<open>normals.resize(NSElements*_ndims)\<close> followed by the loop that fills it.\<close>

definition calculate_normals ::
  "nat \<Rightarrow> real list \<Rightarrow> int list \<Rightarrow> nat \<Rightarrow> error + real list" where
  "calculate_normals nd coords SENList NSElements =
     (if nd = 2 then normals_2d_loop coords SENList [0..<NSElements]
      else normals_3d_loop coords SENList [0..<NSElements])"

subsection \<open>Facet adjacency\<close>

text \<open>
  \<open>SNEList[SENList[snloc*i+j]].insert(i)\<close> for every facet \<open>i\<close> and local vertex \<open>j\<close>.
\<close>

fun create_SNEList ::
  "nat \<Rightarrow> int list \<Rightarrow> nat list \<Rightarrow> (int \<Rightarrow> nat list) \<Rightarrow> error + (int \<Rightarrow> nat list)" where
  "create_SNEList snloc SENList [] snel = Inr snel"
| "create_SNEList snloc SENList (k # ks) snel =
     ebind (read_at SENList k) (\<lambda>nid.
       create_SNEList snloc SENList ks (snel(nid := set_insert (k div snloc) (snel nid))))"

text \<open>
  The neighbour of facet \<open>i\<close> through its local vertex \<open>j\<close> (two dimensions): the
  first facet of \<open>SNEList[nid]\<close> other than \<open>i\<close>. In three dimensions, through the edge
  opposite to local vertex \<open>j\<close>: the first facet of \<open>SNEList[nid1]\<close> other than \<open>i\<close>
  that is also in \<open>SNEList[nid2]\<close>. \<open>EEList\<close> is created zero-filled, and an entry
  for which no neighbour is found stays \<open>0\<close>.
\<close>

definition neighbour_2d :: "(int \<Rightarrow> nat list) \<Rightarrow> nat \<Rightarrow> int \<Rightarrow> int" where
  "neighbour_2d snel i nid =
     (case find (\<lambda>it. it \<noteq> i) (snel nid) of None \<Rightarrow> 0 | Some it \<Rightarrow> int it)"

definition neighbour_3d :: "(int \<Rightarrow> nat list) \<Rightarrow> nat \<Rightarrow> int \<Rightarrow> int \<Rightarrow> int" where
  "neighbour_3d snel i nid1 nid2 =
     (case find (\<lambda>it. it \<noteq> i \<and> it \<in> set (snel nid2)) (snel nid1) of
        None \<Rightarrow> 0 | Some it \<Rightarrow> int it)"

fun create_EEList ::
  "nat \<Rightarrow> int list \<Rightarrow> (int \<Rightarrow> nat list) \<Rightarrow> nat list \<Rightarrow> error + int list" where
  "create_EEList snloc SENList snel [] = Inr []"
| "create_EEList snloc SENList snel (k # ks) =
     (let i = k div snloc; j = k mod snloc in
      if snloc = 2 then
        ebind (read_at SENList (i * 2 + j)) (\<lambda>nid.
        ebind (create_EEList snloc SENList snel ks) (\<lambda>rest.
          Inr (neighbour_2d snel i nid # rest)))
      else
        ebind (read_at SENList (i * 3 + (j + 1) mod 3)) (\<lambda>nid1.
        ebind (read_at SENList (i * 3 + (j + 2) mod 3)) (\<lambda>nid2.
        ebind (create_EEList snloc SENList snel ks) (\<lambda>rest.
          Inr (neighbour_3d snel i nid1 nid2 # rest)))))"

subsection \<open>Forming the coplanar patches\<close>

text \<open>
  The data the flood fill reads: \<open>_ndims\<close>, \<open>snloc\<close>, \<open>NSElements\<close>, the normals, the
  facet adjacency and \<open>COPLANAR_MAGIC_NUMBER\<close>.
\<close>

record patch_input =
  p_ndims :: nat
  p_snloc :: nat
  p_NSElements :: nat
  p_normals :: "real list"
  p_EEList :: "int list"
  p_COPLANAR_MAGIC_NUMBER :: real

text \<open>
  \<open>coplanar += ref_normal[d]*normals[sele2*_ndims+d]\<close> for \<open>d < _ndims\<close>, where
  \<open>ref_normal = &(normals[pos*_ndims])\<close>.
\<close>

fun coplanar_sum :: "real list \<Rightarrow> nat \<Rightarrow> nat \<Rightarrow> int \<Rightarrow> nat list \<Rightarrow> real \<Rightarrow> error + real" where
  "coplanar_sum normals nd pos sele2 [] coplanar = Inr coplanar"
| "coplanar_sum normals nd pos sele2 (d # ds) coplanar =
     ebind (read_at normals (pos * nd + d)) (\<lambda>r.
     ebind (read_int normals (sele2 * int nd + int d)) (\<lambda>n.
       coplanar_sum normals nd pos sele2 ds (coplanar + r * n)))"

text \<open>
  The body of \<open>for(size_t i=0; i<snloc; i++)\<close> inside the front loop, for the facet
  \<open>sele\<close> just taken from the front; the state is the front and the patch ids.
\<close>

fun check_surrounding ::
  "patch_input \<Rightarrow> nat \<Rightarrow> int \<Rightarrow> int \<Rightarrow> nat list \<Rightarrow> int list \<times> int list
     \<Rightarrow> error + int list \<times> int list" where
  "check_surrounding inp pos current_id sele [] (front, ids) = Inr (front, ids)"
| "check_surrounding inp pos current_id sele (i # is) (front, ids) =
     ebind (read_int (p_EEList inp) (sele * int (p_snloc inp) + int i)) (\<lambda>sele2.
     ebind (read_int ids sele2) (\<lambda>id2.
       if id2 > 0 then check_surrounding inp pos current_id sele is (front, ids)
       else
         ebind (coplanar_sum (p_normals inp) (p_ndims inp) pos sele2 [0..<p_ndims inp] 0)
           (\<lambda>coplanar.
             if coplanar \<ge> p_COPLANAR_MAGIC_NUMBER inp then
               check_surrounding inp pos current_id sele is
                 (set_insert sele2 front, ids[nat sele2 := current_id])
             else check_surrounding inp pos current_id sele is (front, ids))))"

text \<open>
  \<open>while(!front.empty())\<close>: take the least facet of the front and check its
  neighbours. The loop has no bound of its own; a run that does not leave it is \<open>None\<close>.
\<close>

partial_function (option) advance_front ::
  "patch_input \<Rightarrow> nat \<Rightarrow> int \<Rightarrow> int list \<Rightarrow> int list \<Rightarrow> (error + int list) option" where
  "advance_front inp pos current_id front ids =
     (case front of
        [] \<Rightarrow> Some (Inr ids)
      | sele # rest \<Rightarrow>
          (case check_surrounding inp pos current_id sele [0..<p_snloc inp] (rest, ids) of
             Inl e \<Rightarrow> Some (Inl e)
           | Inr (front', ids') \<Rightarrow> advance_front inp pos current_id front' ids'))"

text \<open>
  \<open>for(size_t pos = 0; pos<NSElements;)\<close>: look for the first facet at or after \<open>pos\<close>
  whose id is \<open>0\<close>, give it \<open>current_id\<close> and flood from it; stop when there is none.
  \<open>coplanar_ids\<close> has \<open>NSElements\<close> entries throughout, so the search reads in range.
\<close>

function form_patches_loop ::
  "patch_input \<Rightarrow> nat \<Rightarrow> int \<Rightarrow> int list \<Rightarrow> (error + int list) option" where
  "form_patches_loop inp pos current_id ids =
     (if pos < p_NSElements inp then
        (case find (\<lambda>i. ids ! i = 0) [pos..<p_NSElements inp] of
           None \<Rightarrow> Some (Inr ids)
         | Some i \<Rightarrow>
             (case advance_front inp i current_id [int i] (ids[i := current_id]) of
                None \<Rightarrow> None
              | Some (Inl e) \<Rightarrow> Some (Inl e)
              | Some (Inr ids') \<Rightarrow> form_patches_loop inp (i + 1) (current_id + 1) ids'))
      else Some (Inr ids))"
  by pat_completeness auto
termination
proof (relation "measure (\<lambda>(inp, pos, current_id, ids). p_NSElements inp - pos)")
  show "wf (measure (\<lambda>(inp, pos, current_id, ids). p_NSElements inp - pos))"
    by simp
next
  fix inp :: patch_input and pos :: nat and current_id :: int and ids :: "int list"
    and x2 :: nat and x2a :: "error + int list" and b :: "int list"
  assume "pos < p_NSElements inp"
    and f: "find (\<lambda>i. ids ! i = 0) [pos..<p_NSElements inp] = Some x2"
  from f have "x2 \<in> set [pos..<p_NSElements inp]"
    by (auto simp: find_Some_iff)
  then show "((inp, x2 + 1, current_id + 1, b), (inp, pos, current_id, ids))
         \<in> measure (\<lambda>(inp, pos, current_id, ids). p_NSElements inp - pos)"
    by (simp add: diff_less_mono2)
qed

text \<open>The patch-forming part of \<open>calculate_coplanar_ids\<close>.\<close>

definition form_patches :: "patch_input \<Rightarrow> (error + int list) option" where
  "form_patches inp = form_patches_loop inp 0 1 (replicate (p_NSElements inp) 0)"

text \<open>
  \<open>calculate_coplanar_ids\<close> as a whole, on a surface whose \<open>SNEList\<close> is still empty
  (as \<open>find_surface\<close> calls it): normals, facet adjacency, patches.
\<close>

definition calculate_coplanar_ids ::
  "nat \<Rightarrow> real list \<Rightarrow> int list \<Rightarrow> nat \<Rightarrow> real \<Rightarrow> (error + int list) option" where
  "calculate_coplanar_ids nd coords SENList NSElements tol =
     (let snloc = (if nd = 2 then 2 else 3) in
      case calculate_normals nd coords SENList NSElements of
        Inl e \<Rightarrow> Some (Inl e)
      | Inr normals \<Rightarrow>
          (case create_SNEList snloc SENList [0..<NSElements * snloc] (\<lambda>nid. []) of
             Inl e \<Rightarrow> Some (Inl e)
           | Inr snel \<Rightarrow>
               (case create_EEList snloc SENList snel [0..<NSElements * snloc] of
                  Inl e \<Rightarrow> Some (Inl e)
                | Inr EEList \<Rightarrow>
                    form_patches
                      \<lparr>p_ndims = nd, p_snloc = snloc, p_NSElements = NSElements,
                       p_normals = normals, p_EEList = EEList,
                       p_COPLANAR_MAGIC_NUMBER = tol\<rparr>)))"

section \<open>The mesh and the element kernels (Mesh.h, ElementProperty.h)\<close>

text \<open>
  \<open>Mesh.h\<close>, \<open>Edge.h\<close> and \<open>ElementProperty.h\<close> are not among the sources. The
  members of \<open>Mesh\<close> that \<open>Coarsen\<close> and \<open>Smooth3D\<close> read and write are the fields
  below, named as the code names them. A point or a metric tensor, which the code
  passes as a pointer into \<open>_coords\<close> or \<open>metric\<close>, is the list of its components.
\<close>

type_synonym point = "real list"

record edge =
  edge_first :: int
  edge_second :: int
  length_e :: real
  adjacent_elements :: "int list"

record mesh =
  number_dimensions :: nat
  NNodes :: nat
  NElements :: nat
  coords :: "real list"
  metric :: "real list"
  ENList :: "int list"
  NNList :: "int list list"
  NEList :: "int list list"
  Edges :: "edge list"
  boundary :: "int list"
  recv_halo :: "int list"
  send :: "int list list"
  recv :: "int list list"
  is_owned_node :: "int \<Rightarrow> bool"

text \<open>
  The kernels of \<open>ElementProperty\<close> are parameters of the model: signed area and
  volume, the Lipnikov quality of a tetrahedron (four points, four metrics) and its
  gradient with respect to the vertex at local position \<open>loc\<close>.
\<close>

record element_property =
  area :: "point \<Rightarrow> point \<Rightarrow> point \<Rightarrow> real"
  volume :: "point \<Rightarrow> point \<Rightarrow> point \<Rightarrow> point \<Rightarrow> real"
  lipnikov :: "point \<Rightarrow> point \<Rightarrow> point \<Rightarrow> point
                 \<Rightarrow> real list \<Rightarrow> real list \<Rightarrow> real list \<Rightarrow> real list \<Rightarrow> real"
  lipnikov_grad :: "nat \<Rightarrow> point \<Rightarrow> point \<Rightarrow> point \<Rightarrow> point \<Rightarrow> real list \<Rightarrow> real list"

text \<open>
  Modelled from the spec: \<open>Mesh::get_coords\<close>, \<open>Mesh::get_metric\<close> and
  \<open>Mesh::get_element\<close> (their definitions are in \<open>Mesh.h\<close>) return the address of the
  block of vertex \<open>nid\<close> in \<open>_coords\<close> (\<open>ndims\<close> numbers) and in \<open>metric\<close> (six numbers
  in three dimensions), and of element \<open>eid\<close> in \<open>_ENList\<close> (\<open>nloc\<close> vertex numbers).
\<close>

definition block :: "'a list \<Rightarrow> nat \<Rightarrow> int \<Rightarrow> error + 'a list" where
  "block xs n i =
     (if 0 \<le> i \<and> nat i * n + n \<le> length xs then Inr (take n (drop (nat i * n) xs))
      else Inl OutOfRange)"

definition get_coords :: "('a mesh_scheme) \<Rightarrow> nat \<Rightarrow> int \<Rightarrow> error + point" where
  "get_coords m nd nid = block (coords m) nd nid"

definition get_metric :: "('a mesh_scheme) \<Rightarrow> int \<Rightarrow> error + real list" where
  "get_metric m nid = block (metric m) 6 nid"

definition get_element :: "('a mesh_scheme) \<Rightarrow> nat \<Rightarrow> int \<Rightarrow> error + int list" where
  "get_element m nloc eid = block (ENList m) nloc eid"

text \<open>
  Modelled from the spec: \<open>Mesh::get_node_patch\<close> (defined in \<open>Mesh.h\<close>) returns the
  neighbours of a vertex as a \<open>std::set\<close>.
\<close>

definition get_node_patch :: "('a mesh_scheme) \<Rightarrow> int \<Rightarrow> error + int list" where
  "get_node_patch m nid = ebind (read_int (NNList m) nid) (\<lambda>nn. Inr (fold set_insert nn []))"

text \<open>
  Modelled from the spec: an \<open>Edge\<close> (defined in \<open>Edge.h\<close>) is the pair of its end
  points stored as \<open>(min, max)\<close>, and the edge set is keyed by that pair.
\<close>

definition Edges_find :: "edge list \<Rightarrow> int \<Rightarrow> int \<Rightarrow> edge option" where
  "Edges_find es a b = find (\<lambda>e. edge_first e = min a b \<and> edge_second e = max a b) es"

section \<open>Coarsening: identifying the collapse target (Coarsen.h)\<close>

text \<open>
  \<open>std::multimap::insert\<close>: the new entry goes after the entries whose key is not
  greater, so entries of equal length keep the order of insertion.
\<close>

fun multimap_insert :: "real \<times> edge \<Rightarrow> (real \<times> edge) list \<Rightarrow> (real \<times> edge) list" where
  "multimap_insert x [] = [x]"
| "multimap_insert x (y # ys) =
     (if fst x < fst y then x # y # ys else y # multimap_insert x ys)"

text \<open>
  The first loop of \<open>coarsen_identify_kernel\<close>, over the neighbours \<open>nn\<close> of
  \<open>rm_vertex\<close>, which fills \<open>short_edges\<close>.
\<close>

fun short_edges_loop ::
  "surface \<Rightarrow> mesh \<Rightarrow> int \<Rightarrow> real \<Rightarrow> int list \<Rightarrow> (real \<times> edge) list
     \<Rightarrow> error + (real \<times> edge) list" where
  "short_edges_loop surf m rm_vertex L_low [] short_edges = Inr short_edges"
| "short_edges_loop surf m rm_vertex L_low (nn # nns) short_edges =
     (if set_count (recv_halo m) nn \<noteq> 0 then
        short_edges_loop surf m rm_vertex L_low nns short_edges
      else
        ebind (is_collapsible surf rm_vertex nn) (\<lambda>collapsible.
          if \<not> collapsible then short_edges_loop surf m rm_vertex L_low nns short_edges
          else
            (case Edges_find (Edges m) rm_vertex nn of
               None \<Rightarrow> Inl AssertionFailed
             | Some edge \<Rightarrow>
                 if length_e edge < L_low then
                   short_edges_loop surf m rm_vertex L_low nns
                     (multimap_insert (length_e edge, edge) short_edges)
                 else short_edges_loop surf m rm_vertex L_low nns short_edges)))"

text \<open>
  The copy \<open>n\<close> of an element's vertices with \<open>rm_vertex\<close> replaced by
  \<open>target_vertex\<close>.
\<close>

definition substitute :: "int \<Rightarrow> int \<Rightarrow> int list \<Rightarrow> int list" where
  "substitute rm_vertex target_vertex orig_n =
     map (\<lambda>nid. if nid = rm_vertex then target_vertex else nid) orig_n"

text \<open>
  The signed area (\<open>ndims == 2\<close>) or volume of the element with the vertices \<open>n\<close>.
\<close>

definition element_volume ::
  "element_property \<Rightarrow> mesh \<Rightarrow> nat \<Rightarrow> int list \<Rightarrow> error + real" where
  "element_volume property m nd n =
     (if nd = 2 then
        ebind (read_at n 0) (\<lambda>n0. ebind (read_at n 1) (\<lambda>n1. ebind (read_at n 2) (\<lambda>n2.
        ebind (get_coords m nd n0) (\<lambda>x0. ebind (get_coords m nd n1) (\<lambda>x1.
        ebind (get_coords m nd n2) (\<lambda>x2. Inr (area property x0 x1 x2)))))))
      else
        ebind (read_at n 0) (\<lambda>n0. ebind (read_at n 1) (\<lambda>n1. ebind (read_at n 2) (\<lambda>n2.
        ebind (read_at n 3) (\<lambda>n3.
        ebind (get_coords m nd n0) (\<lambda>x0. ebind (get_coords m nd n1) (\<lambda>x1.
        ebind (get_coords m nd n2) (\<lambda>x2. ebind (get_coords m nd n3) (\<lambda>x3.
          Inr (volume property x0 x1 x2 x3))))))))))"

text \<open>
  The loop over the elements \<open>ee\<close> of \<open>NEList[rm_vertex]\<close> that checks the volume of
  each element the collapse would rewrite. The result is the value of
  \<open>reject_collapse\<close> when the loop is left; the loop starts with it false. Where
  \<open>orig_volume\<close> is zero the quotient is infinite or NaN.
\<close>

fun volume_check ::
  "element_property \<Rightarrow> mesh \<Rightarrow> int \<Rightarrow> edge \<Rightarrow> int \<Rightarrow> int list \<Rightarrow> error + bool" where
  "volume_check property m rm_vertex target_edge target_vertex [] = Inr False"
| "volume_check property m rm_vertex target_edge target_vertex (ee # ees) =
     (if set_count (adjacent_elements target_edge) ee \<noteq> 0 then
        volume_check property m rm_vertex target_edge target_vertex ees
      else
        (let nd = number_dimensions m; nloc = (if nd = 2 then 3 else 4) in
         ebind (get_element m nloc ee) (\<lambda>orig_n.
         ebind (element_volume property m nd orig_n) (\<lambda>orig_volume.
         ebind (element_volume property m nd (substitute rm_vertex target_vertex orig_n))
           (\<lambda>volume.
             if orig_volume = 0 then Inl NonFinite
             else if volume / orig_volume \<le> 0.001 then Inr True
             else volume_check property m rm_vertex target_edge target_vertex ees)))))"

text \<open>
  The loop over the neighbours of \<open>rm_vertex\<close> that checks the new edge lengths; it
  can only raise \<open>reject_collapse\<close>. \<open>Mesh::calc_edge_length\<close> is a parameter.
\<close>

fun length_check :: "(int \<Rightarrow> int \<Rightarrow> real) \<Rightarrow> real \<Rightarrow> int \<Rightarrow> int list \<Rightarrow> bool \<Rightarrow> bool" where
  "length_check calc_edge_length L_max target_vertex [] reject_collapse = reject_collapse"
| "length_check calc_edge_length L_max target_vertex (nn # nns) reject_collapse =
     (if target_vertex = nn then
        length_check calc_edge_length L_max target_vertex nns reject_collapse
      else if calc_edge_length target_vertex nn > L_max then True
      else length_check calc_edge_length L_max target_vertex nns reject_collapse)"

text \<open>
  \<open>while(short_edges.size())\<close>: the state is \<open>(reject_collapse, target_vertex)\<close>.
\<close>

fun try_edges ::
  "element_property \<Rightarrow> (int \<Rightarrow> int \<Rightarrow> real) \<Rightarrow> mesh \<Rightarrow> int \<Rightarrow> real
     \<Rightarrow> int list \<Rightarrow> int list \<Rightarrow> (real \<times> edge) list \<Rightarrow> bool \<times> int \<Rightarrow> error + bool \<times> int" where
  "try_edges property calc_edge_length m rm_vertex L_max nel nnl []
     (reject_collapse, target_vertex) = Inr (reject_collapse, target_vertex)"
| "try_edges property calc_edge_length m rm_vertex L_max nel nnl (se # short_edges)
     (reject_collapse, target_vertex) =
     (let target_edge = snd se;
          target_vertex = (if rm_vertex = edge_first target_edge
                           then edge_second target_edge else edge_first target_edge)
      in ebind (volume_check property m rm_vertex target_edge target_vertex nel)
           (\<lambda>reject_collapse.
              let reject_collapse =
                    length_check calc_edge_length L_max target_vertex nnl reject_collapse
              in if \<not> reject_collapse then Inr (reject_collapse, target_vertex)
                 else try_edges property calc_edge_length m rm_vertex L_max nel nnl
                        short_edges (reject_collapse, target_vertex)))"

definition coarsen_identify_kernel ::
  "element_property \<Rightarrow> (int \<Rightarrow> int \<Rightarrow> real) \<Rightarrow> surface \<Rightarrow> mesh \<Rightarrow> int \<Rightarrow> real \<Rightarrow> real
     \<Rightarrow> error + int" where
  "coarsen_identify_kernel property calc_edge_length surf m rm_vertex L_low L_max =
     ebind (is_corner_vertex surf rm_vertex) (\<lambda>corner.
       if corner then Inr (- 2)
       else if \<not> is_owned_node m rm_vertex then Inr (- 3)
       else
         ebind (read_int (NNList m) rm_vertex) (\<lambda>nnl.
         ebind (read_int (NEList m) rm_vertex) (\<lambda>nel.
         ebind (short_edges_loop surf m rm_vertex L_low nnl []) (\<lambda>short_edges.
         ebind (try_edges property calc_edge_length m rm_vertex L_max nel nnl short_edges
                  (False, - 1))
           (\<lambda>(reject_collapse, target_vertex).
              if reject_collapse then Inr (- 4) else Inr target_vertex)))))"

section \<open>Smoothing in metric space (Smooth3D.h)\<close>

text \<open>
  The smoother works on the mesh it points to, so its state is the mesh together with
  its own members. \<open>colour_sets\<close> is a \<open>std::map<int, std::vector<index_t> >\<close>: the
  list of its entries in ascending key order.
\<close>

record smooth3d = mesh +
  good_q :: real
  epsilon_q :: real
  quality :: "real list"
  colour_sets :: "(int \<times> int list) list"
  mpi_nparts :: int

text \<open>
  What the smoother calls outside the two headers: the element kernels, the SVD solver
  of the linear system, the colouring, and the message passing. \<open>svd_solve A q\<close>
  stands for \<open>A.svd().solve(q, &b)\<close>, \<open>GebremedhinManne\<close> for the colouring of the
  vertices, \<open>allreduce_max\<close> for the largest colour over all ranks, and
  \<open>incoming_coords iter ic v\<close>, \<open>incoming_metric iter ic v\<close> for the coordinates and
  metric of vertex \<open>v\<close> that its owner sends in the halo exchange following colour \<open>ic\<close>
  of sweep \<open>iter\<close>.
\<close>

record environment =
  property :: element_property
  svd_solve :: "real list \<Rightarrow> real list \<Rightarrow> real list"
  GebremedhinManne :: "nat \<Rightarrow> int list list \<Rightarrow> int list list \<Rightarrow> int list list \<Rightarrow> int list"
  allreduce_max :: "int \<Rightarrow> int"
  incoming_coords :: "nat \<Rightarrow> int \<Rightarrow> int \<Rightarrow> real list"
  incoming_metric :: "nat \<Rightarrow> int \<Rightarrow> int \<Rightarrow> real list"

definition DBL_MAX :: real where
  "DBL_MAX = (2 - 1 / 2 ^ 52) * 2 ^ 1023"

definition DBL_MIN :: real where
  "DBL_MIN = 1 / 2 ^ 1022"

definition DBL_EPSILON :: real where
  "DBL_EPSILON = 1 / 2 ^ 52"

text \<open>\<open>std::isnormal\<close> on a finite number: neither zero nor subnormal.\<close>

definition isnormal :: "real \<Rightarrow> bool" where
  "isnormal x = (DBL_MIN \<le> \<bar>x\<bar> \<and> \<bar>x\<bar> \<le> DBL_MAX)"

text \<open>
  \<open>for(j=0;j<blk;j++) arr[node*blk+j] = vals[j]\<close>, the way the kernels commit a
  position (\<open>blk = 3\<close>) or a metric (\<open>blk = 6\<close>).
\<close>

definition write_block :: "'a list \<Rightarrow> nat \<Rightarrow> int \<Rightarrow> 'a list \<Rightarrow> error + 'a list" where
  "write_block arr blk node vals =
     (if 0 \<le> node \<and> nat node * blk + blk \<le> length arr \<and> blk \<le> length vals
      then Inr (fold (\<lambda>j a. a[nat node * blk + j := vals ! j]) [0..<blk] arr)
      else Inl OutOfRange)"

definition write_int :: "'a list \<Rightarrow> int \<Rightarrow> 'a \<Rightarrow> error + 'a list" where
  "write_int arr i v =
     (if 0 \<le> i \<and> nat i < length arr then Inr (arr[nat i := v]) else Inl OutOfRange)"

subsection \<open>The Laplacian position\<close>

text \<open>
  The loop of \<open>laplacian_3d_kernel(node, p)\<close> over the patch of \<open>node\<close>. \<open>m\<close> is the
  address of the metric of \<open>node\<close>, and the loop reads \<open>m[0]\<close>, \<open>m[1]\<close>, \<open>m[2]\<close>, \<open>m[3]\<close>,
  \<open>m[4]\<close> and \<open>m[6]\<close>. The state is \<open>(q, A)\<close>, with \<open>A\<close> the nine coefficients that the
  code addresses as \<open>A[0]\<close> to \<open>A[8]\<close>.
\<close>

fun laplacian_sum ::
  "smooth3d \<Rightarrow> int \<Rightarrow> real \<times> real \<times> real \<Rightarrow> int list \<Rightarrow> real list \<times> real list
     \<Rightarrow> error + real list \<times> real list" where
  "laplacian_sum s node x0 [] (q, A) = Inr (q, A)"
| "laplacian_sum s node (x0, y0, z0) (il # ils) (q, A) =
     ebind (get_x 3 (coords s) il) (\<lambda>xi.
     ebind (get_y 3 (coords s) il) (\<lambda>yi.
     ebind (get_z 3 (coords s) il) (\<lambda>zi.
     ebind (read_int (metric s) (node * 6 + 0)) (\<lambda>m0.
     ebind (read_int (metric s) (node * 6 + 1)) (\<lambda>m1.
     ebind (read_int (metric s) (node * 6 + 2)) (\<lambda>m2.
     ebind (read_int (metric s) (node * 6 + 3)) (\<lambda>m3.
     ebind (read_int (metric s) (node * 6 + 4)) (\<lambda>m4.
     ebind (read_int (metric s) (node * 6 + 6)) (\<lambda>m6.
       let x = xi - x0; y = yi - y0; z = zi - z0 in
       laplacian_sum s node (x0, y0, z0) ils
         ([q ! 0 + (m0 * x + m1 * y + m2 * z),
           q ! 1 + (m1 * x + m3 * y + m4 * z),
           q ! 2 + (m2 * x + m4 * y + m6 * z)],
          A[0 := A ! 0 + m0, 1 := A ! 1 + m1, 2 := A ! 2 + m2,
            4 := A ! 4 + m3, 5 := A ! 5 + m4, 8 := A ! 8 + m6]))))))))))"

text \<open>
  \<open>bool laplacian_3d_kernel(index_t node, real_t *p)\<close>; the result is the returned
  flag, which is always true, and \<open>p\<close>.
\<close>

definition laplacian_3d_position ::
  "environment \<Rightarrow> smooth3d \<Rightarrow> int \<Rightarrow> error + bool \<times> real list" where
  "laplacian_3d_position env s node =
     ebind (get_node_patch s node) (\<lambda>patch.
     ebind (get_x 3 (coords s) node) (\<lambda>x0.
     ebind (get_y 3 (coords s) node) (\<lambda>y0.
     ebind (get_z 3 (coords s) node) (\<lambda>z0.
     ebind (laplacian_sum s node (x0, y0, z0) patch ([0, 0, 0], replicate 9 0))
       (\<lambda>(q, A0).
          let A1 = A0[3 := A0 ! 1];
              A2 = A1[6 := A1 ! 2];
              A = A2[7 := A2 ! 5];
              b = svd_solve env A q
          in ebind (read_at b 0) (\<lambda>b0.
             ebind (read_at b 1) (\<lambda>b1.
             ebind (read_at b 2) (\<lambda>b2.
               Inr (True, [b0 + x0, b1 + y0, b2 + z0])))))))))"

subsection \<open>Interpolating the metric at a new position\<close>

text \<open>
  The loop of \<open>generate_location_3d\<close> over the elements of \<open>node\<close>. The state is
  \<open>(l, best_e, tol)\<close>; the result \<open>None\<close> is the \<open>return false\<close> inside the loop, taken
  when the element, with \<open>node\<close> moved to \<open>p\<close>, has a negative volume.
\<close>

definition moved_volume ::
  "element_property \<Rightarrow> int \<Rightarrow> point \<Rightarrow> int list \<Rightarrow> point \<Rightarrow> point \<Rightarrow> point \<Rightarrow> point
     \<Rightarrow> real" where
  "moved_volume pr node p n x0 x1 x2 x3 =
     (if n ! 0 = node then volume pr p x1 x2 x3
      else if n ! 1 = node then volume pr x0 p x2 x3
      else if n ! 2 = node then volume pr x0 x1 p x3
      else volume pr x0 x1 x2 p)"

fun generate_location_loop ::
  "element_property \<Rightarrow> smooth3d \<Rightarrow> int \<Rightarrow> point \<Rightarrow> int list \<Rightarrow> real list \<times> int \<times> real
     \<Rightarrow> error + (real list \<times> int \<times> real) option" where
  "generate_location_loop pr s node p [] st = Inr (Some st)"
| "generate_location_loop pr s node p (ie # ies) (l, best_e, tol) =
     ebind (get_element s 4 ie) (\<lambda>n.
       if n ! 0 < 0 then Inl AssertionFailed
       else
         ebind (get_coords s 3 (n ! 0)) (\<lambda>x0.
         ebind (get_coords s 3 (n ! 1)) (\<lambda>x1.
         ebind (get_coords s 3 (n ! 2)) (\<lambda>x2.
         ebind (get_coords s 3 (n ! 3)) (\<lambda>x3.
           if moved_volume pr node p n x0 x1 x2 x3 < 0 then Inr None
           else
             (let L = volume pr x0 x1 x2 x3 in
              if L = 0 then Inl NonFinite
              else
                (let ll = [volume pr p x1 x2 x3 / L, volume pr x0 p x2 x3 / L,
                           volume pr x0 x1 p x3 / L, volume pr x0 x1 x2 p / L];
                     min_l = min (min (ll ! 0) (ll ! 1)) (min (ll ! 2) (ll ! 3))
                 in if best_e = - 1 then
                      generate_location_loop pr s node p ies (ll, ie, min_l)
                    else if min_l > tol then
                      generate_location_loop pr s node p ies (ll, ie, min_l)
                    else generate_location_loop pr s node p ies (l, best_e, tol))))))))"

text \<open>
  \<open>mp[i] = l[0]*metric[n[0]*6+i] + l[1]*metric[n[1]*6+i] + l[2]*metric[n[2]*6+i]
  + l[3]*metric[n[3]*6+i]\<close> for \<open>i < 6\<close>.
\<close>

fun interpolate_metric :: "real list \<Rightarrow> real list \<Rightarrow> int list \<Rightarrow> nat list \<Rightarrow> error + real list" where
  "interpolate_metric mt l n [] = Inr []"
| "interpolate_metric mt l n (i # is) =
     ebind (read_int mt (n ! 0 * 6 + int i)) (\<lambda>a0.
     ebind (read_int mt (n ! 1 * 6 + int i)) (\<lambda>a1.
     ebind (read_int mt (n ! 2 * 6 + int i)) (\<lambda>a2.
     ebind (read_int mt (n ! 3 * 6 + int i)) (\<lambda>a3.
     ebind (interpolate_metric mt l n is) (\<lambda>rest.
       Inr ((l ! 0 * a0 + l ! 1 * a1 + l ! 2 * a2 + l ! 3 * a3) # rest))))))"

text \<open>
  \<open>bool generate_location_3d(node, p, mp)\<close>: \<open>None\<close> is the result \<open>false\<close>, and
  \<open>Some mp\<close> is \<open>true\<close> with the interpolated metric.
\<close>

definition generate_location_3d ::
  "element_property \<Rightarrow> smooth3d \<Rightarrow> int \<Rightarrow> point \<Rightarrow> error + real list option" where
  "generate_location_3d pr s node p =
     ebind (read_int (NEList s) node) (\<lambda>nel.
     ebind (generate_location_loop pr s node p nel ([- 1, - 1, - 1, - 1], - 1, - 1)) (\<lambda>r.
       case r of
         None \<Rightarrow> Inr None
       | Some (l, best_e, tol) \<Rightarrow>
           if best_e = - 1 then Inl AssertionFailed
           else if \<not> tol > - DBL_EPSILON then Inl AssertionFailed
           else
             ebind (get_element s 4 best_e) (\<lambda>n.
               if n ! 0 < 0 then Inl AssertionFailed
               else ebind (interpolate_metric (metric s) l n [0..<6]) (\<lambda>mp.
                      Inr (Some mp)))))"

subsection \<open>Element quality\<close>

text \<open>
  The Lipnikov quality of the element with vertices \<open>n\<close> at the current coordinates
  and metrics, as \<open>update_quality\<close>, \<open>init_cache\<close> and \<open>functional_Linf(node)\<close>
  compute it.
\<close>

definition element_quality :: "element_property \<Rightarrow> smooth3d \<Rightarrow> int list \<Rightarrow> error + real" where
  "element_quality pr s n =
     ebind (get_coords s 3 (n ! 0)) (\<lambda>x0. ebind (get_coords s 3 (n ! 1)) (\<lambda>x1.
     ebind (get_coords s 3 (n ! 2)) (\<lambda>x2. ebind (get_coords s 3 (n ! 3)) (\<lambda>x3.
     ebind (get_metric s (n ! 0)) (\<lambda>m0. ebind (get_metric s (n ! 1)) (\<lambda>m1.
     ebind (get_metric s (n ! 2)) (\<lambda>m2. ebind (get_metric s (n ! 3)) (\<lambda>m3.
       Inr (lipnikov pr x0 x1 x2 x3 m0 m1 m2 m3)))))))))"

definition update_quality :: "element_property \<Rightarrow> smooth3d \<Rightarrow> int \<Rightarrow> error + smooth3d" where
  "update_quality pr s element =
     ebind (get_element s 4 element) (\<lambda>n.
     ebind (element_quality pr s n) (\<lambda>q.
     ebind (write_int (quality s) element q) (\<lambda>quality'.
       Inr (s\<lparr>quality := quality'\<rparr>))))"

fun update_qualities :: "element_property \<Rightarrow> smooth3d \<Rightarrow> int list \<Rightarrow> error + smooth3d" where
  "update_qualities pr s [] = Inr s"
| "update_qualities pr s (ie # ies) =
     ebind (update_quality pr s ie) (\<lambda>s'. update_qualities pr s' ies)"

text \<open>
  \<open>functional_Linf(node)\<close>: the least cached quality over the elements of \<open>node\<close>; a
  negative (stale) cache entry is recomputed and stored first.
\<close>

fun functional_Linf_loop ::
  "element_property \<Rightarrow> smooth3d \<Rightarrow> int list \<Rightarrow> real \<Rightarrow> error + smooth3d \<times> real" where
  "functional_Linf_loop pr s [] patch_quality = Inr (s, patch_quality)"
| "functional_Linf_loop pr s (ie # ies) patch_quality =
     ebind (read_int (quality s) ie) (\<lambda>q.
       if q < 0 then
         ebind (get_element s 4 ie) (\<lambda>n.
           if \<not> n ! 0 \<ge> 0 then Inl AssertionFailed
           else
             ebind (element_quality pr s n) (\<lambda>q'.
             ebind (write_int (quality s) ie q') (\<lambda>quality'.
               functional_Linf_loop pr (s\<lparr>quality := quality'\<rparr>) ies (min patch_quality q'))))
       else functional_Linf_loop pr s ies (min patch_quality q))"

definition functional_Linf :: "element_property \<Rightarrow> smooth3d \<Rightarrow> int \<Rightarrow> error + smooth3d \<times> real" where
  "functional_Linf pr s node =
     ebind (read_int (NEList s) node) (\<lambda>nel. functional_Linf_loop pr s nel DBL_MAX)"

text \<open>
  The position \<open>loc\<close> of \<open>n0\<close> in the element \<open>n\<close> (4 if it is not there) and the
  \<open>switch(loc)\<close> that orders the other three vertices. For \<open>loc = 4\<close> no case of the
  switch applies and \<open>n1\<close>, \<open>n2\<close>, \<open>n3\<close> are read without having been assigned.
\<close>

definition find_loc :: "int list \<Rightarrow> int \<Rightarrow> nat" where
  "find_loc n n0 =
     (if n ! 0 = n0 then 0 else if n ! 1 = n0 then 1 else if n ! 2 = n0 then 2
      else if n ! 3 = n0 then 3 else 4)"

definition other_vertices :: "int list \<Rightarrow> nat \<Rightarrow> error + int \<times> int \<times> int" where
  "other_vertices n loc =
     (if loc = 0 then Inr (n ! 1, n ! 2, n ! 3)
      else if loc = 1 then Inr (n ! 2, n ! 0, n ! 3)
      else if loc = 2 then Inr (n ! 0, n ! 1, n ! 3)
      else if loc = 3 then Inr (n ! 0, n ! 2, n ! 1)
      else Inl Uninitialised)"

text \<open>
  The quality of element \<open>ie\<close> with \<open>n0\<close> moved to \<open>p\<close> and given the metric \<open>mp\<close>.
\<close>

definition moved_quality ::
  "element_property \<Rightarrow> smooth3d \<Rightarrow> int \<Rightarrow> point \<Rightarrow> real list \<Rightarrow> int \<Rightarrow> error + real" where
  "moved_quality pr s n0 p mp ie =
     ebind (get_element s 4 ie) (\<lambda>n.
     ebind (other_vertices n (find_loc n n0)) (\<lambda>(n1, n2, n3).
     ebind (get_coords s 3 n1) (\<lambda>x1. ebind (get_coords s 3 n2) (\<lambda>x2.
     ebind (get_coords s 3 n3) (\<lambda>x3.
     ebind (get_metric s n1) (\<lambda>m1. ebind (get_metric s n2) (\<lambda>m2.
     ebind (get_metric s n3) (\<lambda>m3.
       Inr (lipnikov pr p x1 x2 x3 mp m1 m2 m3)))))))))"

text \<open>\<open>functional_Linf(n0, p, mp)\<close>.\<close>

fun functional_Linf_at_loop ::
  "element_property \<Rightarrow> smooth3d \<Rightarrow> int \<Rightarrow> point \<Rightarrow> real list \<Rightarrow> int list \<Rightarrow> real
     \<Rightarrow> error + real" where
  "functional_Linf_at_loop pr s n0 p mp [] functional = Inr functional"
| "functional_Linf_at_loop pr s n0 p mp (ie # ies) functional =
     ebind (moved_quality pr s n0 p mp ie) (\<lambda>fnl.
       functional_Linf_at_loop pr s n0 p mp ies (min functional fnl))"

definition functional_Linf_at ::
  "element_property \<Rightarrow> smooth3d \<Rightarrow> int \<Rightarrow> point \<Rightarrow> real list \<Rightarrow> error + real" where
  "functional_Linf_at pr s n0 p mp =
     ebind (read_int (NEList s) n0) (\<lambda>nel. functional_Linf_at_loop pr s n0 p mp nel DBL_MAX)"

subsection \<open>The Laplacian and smart-Laplacian kernels\<close>

text \<open>
  Committing a position and a metric: \<open>_mesh->_coords[node*3+j] = p[j]\<close> for \<open>j < 3\<close>
  and \<open>_mesh->metric[node*6+j] = mp[j]\<close> for \<open>j < 6\<close>.
\<close>

definition commit :: "smooth3d \<Rightarrow> int \<Rightarrow> point \<Rightarrow> real list \<Rightarrow> error + smooth3d" where
  "commit s node p mp =
     ebind (write_block (coords s) 3 node p) (\<lambda>coords'.
     ebind (write_block (metric s) 6 node mp) (\<lambda>metric'.
       Inr (s\<lparr>coords := coords', metric := metric'\<rparr>)))"

text \<open>
  \<open>bool laplacian_3d_kernel(index_t node)\<close>. Each kernel returns the flag and the
  state it leaves.
\<close>

definition laplacian_3d_kernel ::
  "environment \<Rightarrow> smooth3d \<Rightarrow> int \<Rightarrow> error + bool \<times> smooth3d" where
  "laplacian_3d_kernel env s node =
     ebind (laplacian_3d_position env s node) (\<lambda>(valid, p).
       if \<not> valid then Inr (False, s)
       else
         ebind (generate_location_3d (property env) s node p) (\<lambda>r.
           case r of
             None \<Rightarrow> Inr (False, s)
           | Some mp \<Rightarrow> ebind (commit s node p mp) (\<lambda>s'. Inr (True, s'))))"

definition smart_laplacian_3d_kernel ::
  "environment \<Rightarrow> smooth3d \<Rightarrow> int \<Rightarrow> error + bool \<times> smooth3d" where
  "smart_laplacian_3d_kernel env s node =
     ebind (laplacian_3d_position env s node) (\<lambda>(valid, p).
       if \<not> valid then Inr (False, s)
       else
         ebind (generate_location_3d (property env) s node p) (\<lambda>r.
           case r of
             None \<Rightarrow> Inr (False, s)
           | Some mp \<Rightarrow>
               ebind (functional_Linf_at (property env) s node p mp) (\<lambda>functional.
               ebind (functional_Linf (property env) s node) (\<lambda>(s1, functional_orig).
                 if functional - functional_orig < epsilon_q s1 then Inr (False, s1)
                 else
                   ebind (commit s1 node p mp) (\<lambda>s2.
                   ebind (read_int (NEList s2) node) (\<lambda>nel.
                   ebind (update_qualities (property env) s2 nel) (\<lambda>s3.
                     Inr (True, s3))))))))"

subsection \<open>The Linf optimisation kern\<close>

text \<open>
  The search for the worst element: \<open>worst_element\<close> starts as \<open>(DBL_MAX, -1)\<close> and
  is replaced by \<open>(quality[*it], *it)\<close> whenever that quality is smaller.
\<close>

fun worst_element_loop :: "real list \<Rightarrow> int list \<Rightarrow> real \<times> int \<Rightarrow> error + real \<times> int" where
  "worst_element_loop qs [] worst_element = Inr worst_element"
| "worst_element_loop qs (it # its) worst_element =
     ebind (read_int qs it) (\<lambda>q.
       if q < fst worst_element then worst_element_loop qs its (q, it)
       else worst_element_loop qs its worst_element)"

text \<open>
  The gradient of the quality of element \<open>ie\<close> with respect to the position of \<open>n0\<close>;
  the three components of \<open>grad\<close> the code reads.
\<close>

definition element_grad ::
  "element_property \<Rightarrow> smooth3d \<Rightarrow> int \<Rightarrow> point \<Rightarrow> real list \<Rightarrow> int \<Rightarrow> error + real list" where
  "element_grad pr s n0 x0 m0 ie =
     ebind (get_element s 4 ie) (\<lambda>n.
     ebind (other_vertices n (find_loc n n0)) (\<lambda>(n1, n2, n3).
     ebind (get_coords s 3 n1) (\<lambda>x1. ebind (get_coords s 3 n2) (\<lambda>x2.
     ebind (get_coords s 3 n3) (\<lambda>x3.
       let grad = lipnikov_grad pr (find_loc n n0) x0 x1 x2 x3 m0 in
       ebind (read_at grad 0) (\<lambda>g0. ebind (read_at grad 1) (\<lambda>g1.
       ebind (read_at grad 2) (\<lambda>g2. Inr [g0, g1, g2]))))))))"

text \<open>
  The bounding-box loop over the neighbours of \<open>n0\<close>, statement by statement:
  \<^verbatim>\<open>
  bbox[0] = std::min(bbox[0], x1[0]);  bbox[1] = std::max(bbox[0], x1[0]);
  bbox[2] = std::min(bbox[1], x1[1]);  bbox[3] = std::max(bbox[1], x1[1]);
  bbox[4] = std::min(bbox[2], x1[2]);  bbox[5] = std::max(bbox[2], x1[2]);
  \<close>
\<close>

fun bbox_loop :: "smooth3d \<Rightarrow> int list \<Rightarrow> real list \<Rightarrow> error + real list" where
  "bbox_loop s [] bbox = Inr bbox"
| "bbox_loop s (it # its) bbox =
     ebind (get_coords s 3 it) (\<lambda>x1.
       let b0 = min (bbox ! 0) (x1 ! 0);
           b1 = max b0 (x1 ! 0);
           b2 = min b1 (x1 ! 1);
           b3 = max b1 (x1 ! 1);
           b4 = min b2 (x1 ! 2);
           b5 = max b2 (x1 ! 2)
       in bbox_loop s its [b0, b1, b2, b3, b4, b5])"

definition dot3 :: "real list \<Rightarrow> real list \<Rightarrow> real" where
  "dot3 a b = a ! 0 * b ! 0 + a ! 1 * b ! 1 + a ! 2 * b ! 2"

text \<open>
  The loop that shortens \<open>alpha\<close> by the linear prediction for every other element.
  Where the denominator is zero the quotient is infinite or NaN, and in each of these
  cases the code leaves \<open>alpha\<close> as it is.
\<close>

fun alpha_loop ::
  "element_property \<Rightarrow> smooth3d \<Rightarrow> int \<Rightarrow> point \<Rightarrow> real list \<Rightarrow> real \<times> int
     \<Rightarrow> real list \<Rightarrow> real list \<Rightarrow> int list \<Rightarrow> real \<Rightarrow> error + real" where
  "alpha_loop pr s n0 x0 m0 worst_element grad_w search [] alpha = Inr alpha"
| "alpha_loop pr s n0 x0 m0 worst_element grad_w search (it # its) alpha =
     (if it = snd worst_element then
        alpha_loop pr s n0 x0 m0 worst_element grad_w search its alpha
      else
        ebind (element_grad pr s n0 x0 m0 it) (\<lambda>grad.
        ebind (read_int (quality s) it) (\<lambda>q.
          let den = dot3 search grad_w - dot3 search grad;
              new_alpha = (q - fst worst_element) / den
          in if den \<noteq> 0 \<and> new_alpha > 0 then
               alpha_loop pr s n0 x0 m0 worst_element grad_w search its (min alpha new_alpha)
             else alpha_loop pr s n0 x0 m0 worst_element grad_w search its alpha)))"

text \<open>
  The qualities of all elements of \<open>n0\<close> at the trial position; \<open>None\<close> as soon as one
  of them does not exceed the worst quality.
\<close>

fun new_quality_loop ::
  "element_property \<Rightarrow> smooth3d \<Rightarrow> int \<Rightarrow> point \<Rightarrow> real list \<Rightarrow> real \<Rightarrow> int list
     \<Rightarrow> real list \<Rightarrow> error + real list option" where
  "new_quality_loop pr s n0 new_x0 new_m0 worst_q [] new_quality = Inr (Some new_quality)"
| "new_quality_loop pr s n0 new_x0 new_m0 worst_q (it # its) new_quality =
     ebind (moved_quality pr s n0 new_x0 new_m0 it) (\<lambda>new_q.
       if new_q > worst_q then
         new_quality_loop pr s n0 new_x0 new_m0 worst_q its (new_quality @ [new_q])
       else Inr None)"

text \<open>
  The cache update, walking \<open>NEList[n0]\<close> backwards while popping \<open>new_quality\<close>
  from its end.
\<close>

fun store_qualities :: "real list \<Rightarrow> (int \<times> real) list \<Rightarrow> error + real list" where
  "store_qualities qs [] = Inr qs"
| "store_qualities qs ((it, q) # rest) =
     ebind (write_int qs it q) (\<lambda>qs'. store_qualities qs' rest)"

text \<open>\<open>for(int isearch=0;isearch<10;isearch++)\<close>, with state \<open>(alpha, linf_update)\<close>.\<close>

fun line_search ::
  "element_property \<Rightarrow> smooth3d \<Rightarrow> int \<Rightarrow> point \<Rightarrow> real \<Rightarrow> real list \<Rightarrow> int list
     \<Rightarrow> nat list \<Rightarrow> real \<Rightarrow> bool \<Rightarrow> error + bool \<times> smooth3d" where
  "line_search pr s n0 x0 worst_q search nel [] alpha linf_update = Inr (linf_update, s)"
| "line_search pr s n0 x0 worst_q search nel (isearch # rest) alpha linf_update =
     (let alpha = alpha * 0.5;
          new_x0 = [x0 ! 0 + alpha * search ! 0, x0 ! 1 + alpha * search ! 1,
                    x0 ! 2 + alpha * search ! 2]
      in ebind (generate_location_3d pr s n0 new_x0) (\<lambda>r.
           case r of
             None \<Rightarrow> line_search pr s n0 x0 worst_q search nel rest alpha False
           | Some new_m0 \<Rightarrow>
               ebind (new_quality_loop pr s n0 new_x0 new_m0 worst_q nel []) (\<lambda>nq.
                 case nq of
                   None \<Rightarrow> line_search pr s n0 x0 worst_q search nel rest alpha False
                 | Some new_quality \<Rightarrow>
                     if length nel \<noteq> length new_quality then Inl AssertionFailed
                     else
                       ebind (store_qualities (quality s) (rev (zip nel new_quality)))
                         (\<lambda>quality'.
                       ebind (commit (s\<lparr>quality := quality'\<rparr>) n0 new_x0 new_m0) (\<lambda>s'.
                         Inr (True, s'))))))"

definition optimisation_linf_3d_kernel ::
  "environment \<Rightarrow> smooth3d \<Rightarrow> int \<Rightarrow> error + bool \<times> smooth3d" where
  "optimisation_linf_3d_kernel env s n0 =
     ebind (read_int (NEList s) n0) (\<lambda>nel.
     ebind (worst_element_loop (quality s) nel (DBL_MAX, - 1)) (\<lambda>worst_element.
       if \<not> snd worst_element \<noteq> - 1 then Inl AssertionFailed
       else if fst worst_element > good_q s then Inr (False, s)
       else
         ebind (get_metric s n0) (\<lambda>m0.
         ebind (get_coords s 3 n0) (\<lambda>x0.
         ebind (element_grad (property env) s n0 x0 m0 (snd worst_element)) (\<lambda>grad_w.
           let mag = sqrt (grad_w ! 0 * grad_w ! 0 + grad_w ! 1 * grad_w ! 1
                           + grad_w ! 2 * grad_w ! 2)
           in if \<not> isnormal mag then Inl AssertionFailed
              else
                (let search = [grad_w ! 0 / mag, grad_w ! 1 / mag, grad_w ! 2 / mag] in
                 ebind (read_int (NNList s) n0) (\<lambda>nnl.
                   if nnl = [] then Inl NonFinite
                   else
                     ebind (bbox_loop s nnl
                              [DBL_MAX, - DBL_MAX, DBL_MAX, - DBL_MAX, DBL_MAX, - DBL_MAX])
                       (\<lambda>bbox.
                     ebind (alpha_loop (property env) s n0 x0 m0 worst_element grad_w search
                              nel ((bbox ! 1 - bbox ! 0 + bbox ! 3 - bbox ! 2
                                    + bbox ! 5 - bbox ! 4) / 6.0))
                       (\<lambda>alpha.
                         line_search (property env) s n0 x0 (fst worst_element) search nel
                           [0..<10] alpha False)))))))))"

text \<open>
  With an empty neighbour list the bounding box keeps its initial entries
  \<open>\<plusminus>DBL_MAX\<close> and the sum that defines \<open>alpha\<close> overflows.
\<close>

subsection \<open>Initialising the cache and the colour sets\<close>

text \<open>
  The marking of boundary vertices: for every live element \<open>i\<close> and local face \<open>j\<close>
  with \<open>_mesh->boundary[i*4+j] > 0\<close>, the three vertices of that face.
\<close>

fun mark_faces ::
  "int list \<Rightarrow> nat \<Rightarrow> int list \<Rightarrow> nat list \<Rightarrow> bool list \<Rightarrow> error + bool list" where
  "mark_faces bnd i n [] is_boundary = Inr is_boundary"
| "mark_faces bnd i n (j # js) is_boundary =
     ebind (read_at bnd (i * 4 + j)) (\<lambda>b.
       if b > 0 then
         ebind (write_int is_boundary (n ! ((j + 1) mod 4)) True) (\<lambda>b1.
         ebind (write_int b1 (n ! ((j + 2) mod 4)) True) (\<lambda>b2.
         ebind (write_int b2 (n ! ((j + 3) mod 4)) True) (\<lambda>b3.
           mark_faces bnd i n js b3)))
       else mark_faces bnd i n js is_boundary)"

fun mark_boundary :: "smooth3d \<Rightarrow> nat list \<Rightarrow> bool list \<Rightarrow> error + bool list" where
  "mark_boundary s [] is_boundary = Inr is_boundary"
| "mark_boundary s (i # is) is_boundary =
     ebind (get_element s 4 (int i)) (\<lambda>n.
       if n ! 0 = - 1 then mark_boundary s is is_boundary
       else ebind (mark_faces (boundary s) i n [0..<4] is_boundary) (\<lambda>is_boundary'.
              mark_boundary s is is_boundary'))"

text \<open>\<open>colour_sets[c].push_back(i)\<close> on the key-ordered list of entries.\<close>

fun colour_sets_push_back :: "int \<Rightarrow> int \<Rightarrow> (int \<times> int list) list \<Rightarrow> (int \<times> int list) list" where
  "colour_sets_push_back c i [] = [(c, [i])]"
| "colour_sets_push_back c i ((c', ns) # rest) =
     (if c < c' then (c, [i]) # (c', ns) # rest
      else if c = c' then (c', ns @ [i]) # rest
      else (c', ns) # colour_sets_push_back c i rest)"

text \<open>
  The loop that sorts the vertices into colour sets, skipping every vertex with a
  negative colour, not owned, without neighbours, or marked as boundary.
\<close>

definition skipped :: "smooth3d \<Rightarrow> int list \<Rightarrow> bool list \<Rightarrow> nat \<Rightarrow> error + bool" where
  "skipped s colour is_boundary i =
     ebind (read_at colour i) (\<lambda>c.
       if c < 0 then Inr True
       else if \<not> is_owned_node s (int i) then Inr True
       else ebind (read_at (NNList s) i) (\<lambda>nn.
              if nn = [] then Inr True else read_at is_boundary i))"

fun fill_colour_sets ::
  "smooth3d \<Rightarrow> int list \<Rightarrow> bool list \<Rightarrow> nat list \<Rightarrow> (int \<times> int list) list
     \<Rightarrow> error + (int \<times> int list) list" where
  "fill_colour_sets s colour is_boundary [] cs = Inr cs"
| "fill_colour_sets s colour is_boundary (i # is) cs =
     ebind (skipped s colour is_boundary i) (\<lambda>skip.
       if skip then fill_colour_sets s colour is_boundary is cs
       else ebind (read_at colour i) (\<lambda>c.
              fill_colour_sets s colour is_boundary is (colour_sets_push_back c (int i) cs)))"

text \<open>
  The quality loop: a deleted element (\<open>n[0] < 0\<close>) gets the cache entry \<open>1.0\<close> and
  the loop continues without adding to \<open>qsum\<close>; a live element gets its Lipnikov
  quality, which is added to \<open>qsum\<close>. The result is the cache and \<open>qsum\<close>.
\<close>

fun init_quality ::
  "element_property \<Rightarrow> smooth3d \<Rightarrow> nat list \<Rightarrow> real \<Rightarrow> error + real list \<times> real" where
  "init_quality pr s [] qsum = Inr ([], qsum)"
| "init_quality pr s (i # is) qsum =
     ebind (get_element s 4 (int i)) (\<lambda>n.
       if n ! 0 < 0 then
         ebind (init_quality pr s is qsum) (\<lambda>(qs, qsum'). Inr (1.0 # qs, qsum'))
       else
         ebind (element_quality pr s n) (\<lambda>q.
         ebind (init_quality pr s is (qsum + q)) (\<lambda>(qs, qsum'). Inr (q # qs, qsum'))))"

text \<open>
  \<open>init_cache(method)\<close>. The last statement is \<open>good_q = qsum/NElements\<close>, which is
  NaN for a mesh without elements.
\<close>

definition init_cache :: "environment \<Rightarrow> smooth3d \<Rightarrow> string \<Rightarrow> error + smooth3d" where
  "init_cache env s method =
     (let colour = GebremedhinManne env (NNodes s) (NNList s) (send s) (recv s) in
      ebind (mark_boundary s [0..<NElements s] (replicate (NNodes s) False)) (\<lambda>is_boundary.
      ebind (fill_colour_sets s colour is_boundary [0..<NNodes s] []) (\<lambda>cs.
      ebind (init_quality (property env) s [0..<NElements s] 0) (\<lambda>(qs, qsum).
        if NElements s = 0 then Inl NonFinite
        else Inr (s\<lparr>colour_sets := cs, quality := qs,
                    good_q := qsum / real (NElements s)\<rparr>)))))"

subsection \<open>The sweeps\<close>

text \<open>
  Modelled from the spec: \<open>halo_update\<close> is defined outside the two headers; \<open>smooth\<close>
  calls it as \<open>halo_update(comm, send, recv, _coords)\<close> and in the same way on the
  metric. The specification says of this step: after each colour class, if distributed,
  exchange halo coordinates and metrics; and it calls halo the vertices known to a
  partition but owned by another one. Accordingly every vertex listed in \<open>recv\<close> has
  its block of the array overwritten by the values its owner sends, and no other entry
  changes; a vertex outside the array is passed over.
\<close>

definition halo_update :: "nat \<Rightarrow> int list list \<Rightarrow> (int \<Rightarrow> real list) \<Rightarrow> real list \<Rightarrow> real list" where
  "halo_update blk rcv incoming arr =
     fold (\<lambda>v a. case write_block a blk v (incoming v) of Inl e \<Rightarrow> a | Inr a' \<Rightarrow> a')
       (concat rcv) arr"

text \<open>
  The elements with a vertex that is not owned, collected when \<open>mpi_nparts > 1\<close>.
\<close>

fun find_halo_elements :: "smooth3d \<Rightarrow> nat list \<Rightarrow> error + int list" where
  "find_halo_elements s [] = Inr []"
| "find_halo_elements s (i # is) =
     ebind (get_element s 4 (int i)) (\<lambda>n.
     ebind (find_halo_elements s is) (\<lambda>rest.
       if n ! 0 < 0 then Inr rest
       else if list_ex (\<lambda>nj. \<not> is_owned_node s nj) n then Inr (int i # rest)
       else Inr rest))"

text \<open>
  The kernel table: an unknown method falls back to \<open>optimisation Linf\<close>.
\<close>

definition smooth_kernel ::
  "environment \<Rightarrow> string \<Rightarrow> smooth3d \<Rightarrow> int \<Rightarrow> error + bool \<times> smooth3d" where
  "smooth_kernel env method =
     (if method = ''Laplacian'' then laplacian_3d_kernel env
      else if method = ''smart Laplacian'' then smart_laplacian_3d_kernel env
      else if method = ''optimisation Linf'' then optimisation_linf_3d_kernel env
      else optimisation_linf_3d_kernel env)"

text \<open>\<open>active_vertices[*it] = 1\<close> for every neighbour of a vertex that moved.\<close>

fun activate :: "int list \<Rightarrow> int list \<Rightarrow> error + int list" where
  "activate active_vertices [] = Inr active_vertices"
| "activate active_vertices (it # its) =
     ebind (write_int active_vertices it 1) (\<lambda>a. activate a its)"

definition apply_kernel ::
  "(smooth3d \<Rightarrow> int \<Rightarrow> error + bool \<times> smooth3d) \<Rightarrow> smooth3d \<times> int list \<Rightarrow> int
     \<Rightarrow> error + smooth3d \<times> int list" where
  "apply_kernel kern st node =
     (case st of (s, active_vertices) \<Rightarrow>
      ebind (kern s node) (\<lambda>(moved, s').
        if moved then
          ebind (read_int (NNList s') node) (\<lambda>nnl.
          ebind (activate active_vertices nnl) (\<lambda>a. Inr (s', a)))
        else Inr (s', active_vertices)))"

text \<open>
  The loop over the vertices of one colour. The code runs it as an OpenMP parallel
  loop; the model visits the vertices in the order of the colour set. In the first
  sweep every vertex is processed; in the later sweeps only an active vertex is, after
  its mask has been reset.
\<close>

fun sweep_nodes ::
  "(smooth3d \<Rightarrow> int \<Rightarrow> error + bool \<times> smooth3d) \<Rightarrow> bool \<Rightarrow> int list \<Rightarrow> smooth3d \<times> int list
     \<Rightarrow> error + smooth3d \<times> int list" where
  "sweep_nodes kern first_sweep [] st = Inr st"
| "sweep_nodes kern first_sweep (node # nodes) (s, active_vertices) =
     (if first_sweep then
        ebind (apply_kernel kern (s, active_vertices) node) (\<lambda>st'.
          sweep_nodes kern first_sweep nodes st')
      else
        ebind (read_int active_vertices node) (\<lambda>a.
          if a \<noteq> 0 then
            ebind (write_int active_vertices node 0) (\<lambda>active'.
            ebind (apply_kernel kern (s, active') node) (\<lambda>st'.
              sweep_nodes kern first_sweep nodes st'))
          else sweep_nodes kern first_sweep nodes (s, active_vertices)))"

text \<open>
  The halo exchange after a colour, when \<open>mpi_nparts > 1\<close>: coordinates, metric, then
  the qualities of the halo elements.
\<close>

definition exchange ::
  "environment \<Rightarrow> int list \<Rightarrow> nat \<Rightarrow> int \<Rightarrow> smooth3d \<Rightarrow> error + smooth3d" where
  "exchange env halo_elements iter ic s =
     (if mpi_nparts s > 1 then
        update_qualities (property env)
          (s\<lparr>coords := halo_update 3 (recv s) (incoming_coords env iter ic) (coords s),
             metric := halo_update 6 (recv s) (incoming_metric env iter ic) (metric s)\<rparr>)
          halo_elements
      else Inr s)"

text \<open>\<open>for(int ic=1;ic<=max_colour;ic++)\<close>: one sweep over the colours.\<close>

fun sweep_colours ::
  "environment \<Rightarrow> (smooth3d \<Rightarrow> int \<Rightarrow> error + bool \<times> smooth3d) \<Rightarrow> int list \<Rightarrow> nat
     \<Rightarrow> int list \<Rightarrow> smooth3d \<times> int list \<Rightarrow> error + smooth3d \<times> int list" where
  "sweep_colours env kern halo_elements iter [] st = Inr st"
| "sweep_colours env kern halo_elements iter (ic # ics) (s, active_vertices) =
     ebind (case map_of (colour_sets s) ic of
              None \<Rightarrow> Inr (s, active_vertices)
            | Some nodes \<Rightarrow> sweep_nodes kern (iter = 0) nodes (s, active_vertices))
       (\<lambda>(s', active').
     ebind (exchange env halo_elements iter ic s') (\<lambda>s''.
       sweep_colours env kern halo_elements iter ics (s'', active')))"

text \<open>
  The first sweep (\<open>iter = 0\<close>) followed by \<open>for(int iter=1;iter<max_iterations;iter++)\<close>.
\<close>

fun sweeps ::
  "environment \<Rightarrow> (smooth3d \<Rightarrow> int \<Rightarrow> error + bool \<times> smooth3d) \<Rightarrow> int list \<Rightarrow> int
     \<Rightarrow> nat list \<Rightarrow> smooth3d \<times> int list \<Rightarrow> error + smooth3d \<times> int list" where
  "sweeps env kern halo_elements max_colour [] st = Inr st"
| "sweeps env kern halo_elements max_colour (iter # iters) st =
     ebind (sweep_colours env kern halo_elements iter [1..max_colour] st) (\<lambda>st'.
       sweeps env kern halo_elements max_colour iters st')"

text \<open>
  \<open>void smooth(std::string method, int max_iterations=10, double quality_tol=-1)\<close>.
  \<open>colour_sets.rbegin()->first\<close> reads past the map when no vertex was coloured.
\<close>

definition smooth ::
  "environment \<Rightarrow> smooth3d \<Rightarrow> string \<Rightarrow> int \<Rightarrow> real \<Rightarrow> error + smooth3d" where
  "smooth env s method max_iterations quality_tol =
     (let s0 = (if quality_tol > 0 then s\<lparr>good_q := quality_tol\<rparr> else s) in
      ebind (init_cache env s0 method) (\<lambda>s1.
      ebind (if mpi_nparts s1 > 1 then find_halo_elements s1 [0..<NElements s1] else Inr [])
        (\<lambda>halo_elements.
          if colour_sets s1 = [] then Inl OutOfRange
          else
            (let max_colour0 = fst (last (colour_sets s1));
                 max_colour = (if mpi_nparts s1 > 1 then allreduce_max env max_colour0
                               else max_colour0)
             in ebind (sweeps env (smooth_kernel env method) halo_elements max_colour
                         (0 # [1..<nat max_iterations])
                         (s1, replicate (NNodes s1) 0))
                  (\<lambda>(s2, active_vertices). Inr s2)))))"

subsection \<open>Notions used to state the properties\<close>

text \<open>
  The signed volume of element \<open>ie\<close> with \<open>node\<close> moved to \<open>p\<close>, as
  \<open>generate_location_3d\<close> computes it for its inversion test.
\<close>

definition moved_element_volume ::
  "element_property \<Rightarrow> smooth3d \<Rightarrow> int \<Rightarrow> point \<Rightarrow> int \<Rightarrow> error + real" where
  "moved_element_volume pr s node p ie =
     ebind (get_element s 4 ie) (\<lambda>n.
     ebind (get_coords s 3 (n ! 0)) (\<lambda>x0.
     ebind (get_coords s 3 (n ! 1)) (\<lambda>x1.
     ebind (get_coords s 3 (n ! 2)) (\<lambda>x2.
     ebind (get_coords s 3 (n ! 3)) (\<lambda>x3.
       Inr (moved_volume pr node p n x0 x1 x2 x3))))))"

text \<open>
  The vertex a candidate edge would collapse \<open>rm_vertex\<close> onto, and the verdict of one
  pass of the \<open>while\<close> loop of \<open>coarsen_identify_kernel\<close> on a candidate: true when
  neither the volume check nor the length check raises \<open>reject_collapse\<close>.
\<close>

definition collapse_target :: "int \<Rightarrow> edge \<Rightarrow> int" where
  "collapse_target rm_vertex target_edge =
     (if rm_vertex = edge_first target_edge then edge_second target_edge
      else edge_first target_edge)"

definition passes ::
  "element_property \<Rightarrow> (int \<Rightarrow> int \<Rightarrow> real) \<Rightarrow> mesh \<Rightarrow> int \<Rightarrow> real \<Rightarrow> int list \<Rightarrow> int list
     \<Rightarrow> real \<times> edge \<Rightarrow> error + bool" where
  "passes pr calc_edge_length m rm_vertex L_max nel nnl se =
     ebind (volume_check pr m rm_vertex (snd se) (collapse_target rm_vertex (snd se)) nel)
       (\<lambda>reject_collapse.
          Inr (\<not> length_check calc_edge_length L_max (collapse_target rm_vertex (snd se)) nnl
                   reject_collapse))"

text \<open>
  The part of invariant I3 of the data model that concerns one edge: every element
  recorded as adjacent to the edge contains the vertex \<open>w\<close>.
\<close>

definition adjacent_elements_contain :: "mesh \<Rightarrow> edge \<Rightarrow> int \<Rightarrow> bool" where
  "adjacent_elements_contain m e w =
     list_all (\<lambda>el. case get_element m (if number_dimensions m = 2 then 3 else 4) el of
                       Inl err \<Rightarrow> False | Inr n \<Rightarrow> w \<in> set n)
       (adjacent_elements e)"

text \<open>
  What makes the neighbour \<open>nn\<close> of \<open>rm_vertex\<close> a collapse candidate with the
  \<open>short_edges\<close> entry \<open>se\<close>: it is not halo-received, the surface allows the collapse,
  and the cached length of the edge is below \<open>L_low\<close>.
\<close>

definition candidate :: "surface \<Rightarrow> mesh \<Rightarrow> int \<Rightarrow> real \<Rightarrow> int \<Rightarrow> real \<times> edge \<Rightarrow> bool" where
  "candidate surf m rm_vertex L_low nn se =
     (set_count (recv_halo m) nn = 0
      \<and> is_collapsible surf rm_vertex nn = Inr True
      \<and> Edges_find (Edges m) rm_vertex nn = Some (snd se)
      \<and> fst se = length_e (snd se)
      \<and> length_e (snd se) < L_low)"

text \<open>
  The neighbours \<open>nn\<close> of \<open>rm_vertex\<close> that are collapse candidates: not halo-received,
  collapsible on the surface, and with an edge to \<open>rm_vertex\<close> whose cached length is
  below \<open>L_low\<close>.
\<close>

definition candidate_neighbour :: "surface \<Rightarrow> mesh \<Rightarrow> int \<Rightarrow> real \<Rightarrow> int \<Rightarrow> bool" where
  "candidate_neighbour surf m rm_vertex L_low nn =
     (set_count (recv_halo m) nn = 0
      \<and> is_collapsible surf rm_vertex nn = Inr True
      \<and> (case Edges_find (Edges m) rm_vertex nn of
            None \<Rightarrow> False | Some edge \<Rightarrow> length_e edge < L_low))"

text \<open>
  A vertex lies on the boundary when it is one of the three vertices of a face \<open>j\<close> of
  a live element \<open>i\<close> with \<open>boundary[i*4+j] > 0\<close>.
\<close>

definition on_boundary :: "smooth3d \<Rightarrow> int \<Rightarrow> bool" where
  "on_boundary s v =
     list_ex (\<lambda>i. list_ex (\<lambda>j.
         case get_element s 4 (int i) of
           Inl e \<Rightarrow> False
         | Inr n \<Rightarrow> n ! 0 \<noteq> - 1
             \<and> (case read_at (boundary s) (i * 4 + j) of Inl e \<Rightarrow> False | Inr b \<Rightarrow> b > 0)
             \<and> (v = n ! ((j + 1) mod 4) \<or> v = n ! ((j + 2) mod 4) \<or> v = n ! ((j + 3) mod 4)))
       [0..<4]) [0..<NElements s]"

text \<open>
  What \<open>smooth\<close> may change in the state besides its quality cache, colour sets and
  \<open>good_q\<close>: the coordinates and the metric. \<open>untouched v s s'\<close> says that the
  coordinates and the metric of vertex \<open>v\<close> are the same in \<open>s\<close> and \<open>s'\<close>.
\<close>

definition untouched :: "int \<Rightarrow> smooth3d \<Rightarrow> smooth3d \<Rightarrow> bool" where
  "untouched v s s' = (get_coords s' 3 v = get_coords s 3 v \<and> get_metric s' v = get_metric s v)"

text \<open>
  Notions for the patches. \<open>near_coplanar inp g f\<close>: the scalar product of the normals
  of the facets \<open>g\<close> and \<open>f\<close>, as the flood fill computes it with \<open>g\<close> as reference, is
  at least the tolerance. \<open>facet_neighbour inp g f\<close>: \<open>f\<close> is an entry of \<open>EEList\<close> for
  facet \<open>g\<close>.
\<close>

definition near_coplanar :: "patch_input \<Rightarrow> nat \<Rightarrow> int \<Rightarrow> bool" where
  "near_coplanar inp g f =
     (case coplanar_sum (p_normals inp) (p_ndims inp) g f [0..<p_ndims inp] 0 of
        Inl e \<Rightarrow> False
      | Inr coplanar \<Rightarrow> coplanar \<ge> p_COPLANAR_MAGIC_NUMBER inp)"

definition facet_neighbour :: "patch_input \<Rightarrow> int \<Rightarrow> int \<Rightarrow> bool" where
  "facet_neighbour inp g f =
     list_ex (\<lambda>i. read_int (p_EEList inp) (g * int (p_snloc inp) + int i) = Inr f)
       [0..<p_snloc inp]"

text \<open>The number of facets that have no patch id yet.\<close>

definition unlabelled :: "int list \<Rightarrow> nat" where
  "unlabelled ids = length (filter (\<lambda>x. x \<le> 0) ids)"

text \<open>One neighbour: the effect of the body of the loop over the neighbours of \<open>sele\<close>.\<close>

definition visit ::
  "patch_input \<Rightarrow> nat \<Rightarrow> int \<Rightarrow> int \<Rightarrow> int list \<times> int list \<Rightarrow> int list \<times> int list" where
  "visit inp pos current_id sele2 st =
     (case st of (front, ids) \<Rightarrow>
        if ids ! nat sele2 > 0 then (front, ids)
        else if near_coplanar inp pos sele2
          then (set_insert sele2 front, ids[nat sele2 := current_id])
          else (front, ids))"

text \<open>
  How the front and the ids can change while the patch \<open>current_id\<close> with seed \<open>pos\<close>
  grows: labelled facets keep their id, a facet that gets an id gets \<open>current_id\<close>, is
  near-coplanar with the seed and enters the front, and the measure that bounds the
  front loop does not increase.
\<close>

definition grows ::
  "patch_input \<Rightarrow> nat \<Rightarrow> int \<Rightarrow> int list \<times> int list \<Rightarrow> int list \<times> int list \<Rightarrow> bool" where
  "grows inp pos current_id st st' =
     (case (st, st') of ((front, ids), (front', ids')) \<Rightarrow>
        length ids' = length ids
      \<and> (\<forall>f < length ids. ids ! f > 0 \<longrightarrow> ids' ! f = ids ! f)
      \<and> (\<forall>f < length ids. ids' ! f \<noteq> ids ! f \<longrightarrow>
            ids' ! f = current_id \<and> near_coplanar inp pos (int f) \<and> int f \<in> set front')
      \<and> set front \<subseteq> set front'
      \<and> (\<forall>x \<in> set front'. x \<in> set front
            \<or> (0 \<le> x \<and> nat x < length ids \<and> ids' ! nat x \<noteq> ids ! nat x))
      \<and> 2 * unlabelled ids' + length front' \<le> 2 * unlabelled ids + length front)"

text \<open>
  \<open>settled inp pos ids g\<close>: every neighbour of facet \<open>g\<close> has an id or is not
  near-coplanar with the seed \<open>pos\<close>.
\<close>

definition settled :: "patch_input \<Rightarrow> nat \<Rightarrow> int list \<Rightarrow> int \<Rightarrow> bool" where
  "settled inp pos ids g =
     (\<forall>i < p_snloc inp. \<exists>f. read_int (p_EEList inp) (g * int (p_snloc inp) + int i) = Inr f
         \<and> 0 \<le> f \<and> nat f < length ids
         \<and> (ids ! nat f > 0 \<or> \<not> near_coplanar inp pos f))"

text \<open>
  What a whole run of the front loop does to the ids: labelled facets keep their id,
  and a facet that gets an id gets \<open>current_id\<close>, is near-coplanar with the seed and
  is a neighbour of a facet of the patch.
\<close>

definition labels :: "patch_input \<Rightarrow> nat \<Rightarrow> int \<Rightarrow> int list \<Rightarrow> int list \<Rightarrow> bool" where
  "labels inp pos current_id ids ids' =
     (length ids' = length ids
      \<and> (\<forall>f < length ids. ids ! f > 0 \<longrightarrow> ids' ! f = ids ! f)
      \<and> (\<forall>f < length ids. ids' ! f \<noteq> ids ! f \<longrightarrow>
            ids' ! f = current_id \<and> near_coplanar inp pos (int f)
            \<and> (\<exists>g < length ids. ids' ! g = current_id \<and> facet_neighbour inp (int g) (int f))))"

text \<open>
  \<open>patch_step inp ids g f\<close>: the facets \<open>g\<close> and \<open>f\<close> have the same (positive) patch id and
  \<open>f\<close> is a neighbour of \<open>g\<close>. A patch is connected when every facet of it is reached
  from its seed by such steps.
\<close>

definition patch_step :: "patch_input \<Rightarrow> int list \<Rightarrow> nat \<Rightarrow> nat \<Rightarrow> bool" where
  "patch_step inp ids g f =
     (g < length ids \<and> f < length ids \<and> 0 < ids ! g \<and> ids ! f = ids ! g
      \<and> facet_neighbour inp (int g) (int f))"

text \<open>
  The seed of a patch is its facet of least index. \<open>seeded inp ids f\<close>: facet \<open>f\<close> is the
  seed of its patch or near-coplanar with the seed, and it is reached from the seed
  through neighbouring facets of the patch. \<open>closed_patch inp ids g\<close>: a neighbour of \<open>g\<close> that is near-coplanar with
  the seed of the patch of \<open>g\<close> lies in that patch or in an earlier one.
\<close>

definition patch_seed :: "int list \<Rightarrow> nat \<Rightarrow> bool" where
  "patch_seed ids sd = (\<forall>h < sd. ids ! h \<noteq> ids ! sd)"

definition seeded :: "patch_input \<Rightarrow> int list \<Rightarrow> nat \<Rightarrow> bool" where
  "seeded inp ids f =
     (\<exists>sd \<le> f. patch_seed ids sd \<and> ids ! sd = ids ! f
        \<and> (f = sd \<or> near_coplanar inp sd (int f))
        \<and> (patch_step inp ids)\<^sup>*\<^sup>* sd f)"

definition closed_patch :: "patch_input \<Rightarrow> int list \<Rightarrow> nat \<Rightarrow> bool" where
  "closed_patch inp ids g =
     (\<forall>sd < length ids. patch_seed ids sd \<and> ids ! sd = ids ! g \<longrightarrow>
        (\<forall>i < p_snloc inp. \<exists>f.
            read_int (p_EEList inp) (int g * int (p_snloc inp) + int i) = Inr f
            \<and> 0 \<le> f \<and> nat f < length ids
            \<and> (near_coplanar inp sd f \<longrightarrow> 0 < ids ! nat f \<and> ids ! nat f \<le> ids ! g)))"

text \<open>
  The invariant of the loop over \<open>pos\<close>: ids are between \<open>0\<close> and \<open>current_id - 1\<close>, the
  facets before \<open>pos\<close> have a patch, every id below \<open>current_id\<close> is in use, facet \<open>0\<close>
  is in patch \<open>1\<close> once the loop has run, and the patches formed so far are seeded
  and closed.
\<close>

definition patches_inv :: "patch_input \<Rightarrow> nat \<Rightarrow> int \<Rightarrow> int list \<Rightarrow> bool" where
  "patches_inv inp pos cur ids =
     (length ids = p_NSElements inp \<and> 1 \<le> cur
      \<and> (\<forall>f < p_NSElements inp. 0 \<le> ids ! f \<and> ids ! f < cur)
      \<and> (\<forall>f < p_NSElements inp. f < pos \<longrightarrow> 0 < ids ! f)
      \<and> (\<forall>k. 1 \<le> k \<and> k < cur \<longrightarrow> (\<exists>f < p_NSElements inp. ids ! f = k))
      \<and> ((pos = 0 \<and> cur = 1) \<or> (0 < p_NSElements inp \<and> ids ! 0 = 1))
      \<and> (\<forall>f < p_NSElements inp. 0 < ids ! f \<longrightarrow> seeded inp ids f)
      \<and> (\<forall>g < p_NSElements inp. 0 < ids ! g \<longrightarrow> closed_patch inp ids g))"

text \<open>
  The result of the classification: every facet has a patch id, the ids are
  \<open>1, 2, \<dots>\<close> without gaps, facet \<open>0\<close> is in patch \<open>1\<close>, and every patch is seeded and
  closed.
\<close>

definition patches_ok :: "patch_input \<Rightarrow> int list \<Rightarrow> bool" where
  "patches_ok inp ids =
     (length ids = p_NSElements inp
      \<and> (\<forall>f < p_NSElements inp. 1 \<le> ids ! f)
      \<and> (\<forall>f < p_NSElements inp. \<forall>k. 1 \<le> k \<and> k \<le> ids ! f \<longrightarrow>
            (\<exists>f' < p_NSElements inp. ids ! f' = k))
      \<and> (0 < p_NSElements inp \<longrightarrow> ids ! 0 = 1)
      \<and> (\<forall>f < p_NSElements inp. seeded inp ids f)
      \<and> (\<forall>g < p_NSElements inp. closed_patch inp ids g))"

text \<open>Auxiliary notions for the frame property of \<open>smooth\<close>.\<close>

definition same_frame :: "smooth3d \<Rightarrow> smooth3d \<Rightarrow> bool" where
  "same_frame s s' =
     (colour_sets s' = colour_sets s \<and> recv s' = recv s \<and> mpi_nparts s' = mpi_nparts s
      \<and> NNList s' = NNList s \<and> NEList s' = NEList s \<and> ENList s' = ENList s)"

text \<open>A kernel that changes coordinates and metric of the vertex it is applied to only.\<close>

definition frames :: "int \<Rightarrow> (smooth3d \<Rightarrow> int \<Rightarrow> error + bool \<times> smooth3d) \<Rightarrow> bool" where
  "frames v kern =
     (\<forall>s node moved s'. kern s node = Inr (moved, s')
        \<longrightarrow> same_frame s s' \<and> (v \<noteq> node \<longrightarrow> untouched v s s'))"

text \<open>No colour set of the state contains \<open>v\<close>.\<close>

definition uncoloured :: "int \<Rightarrow> smooth3d \<Rightarrow> bool" where
  "uncoloured v s = (\<forall>c nodes. (c, nodes) \<in> set (colour_sets s) \<longrightarrow> v \<notin> set nodes)"

text \<open>The entry of vertex \<open>v\<close> in \<open>is_boundary\<close> is set.\<close>

definition marked :: "bool list \<Rightarrow> int \<Rightarrow> bool" where
  "marked is_boundary v = (0 \<le> v \<and> nat v < length is_boundary \<and> is_boundary ! nat v)"

text \<open>The vertices that the smoother keeps out of its colour sets.\<close>

definition immovable :: "smooth3d \<Rightarrow> int \<Rightarrow> bool" where
  "immovable s v =
     (on_boundary s v \<or> \<not> is_owned_node s v \<or> read_int (NNList s) v = Inr [])"



text \<open>
  \<open>smooth\<close> with the kernel of the method replaced by \<open>kern\<close>; everything else as in
  \<open>smooth\<close>. That no kernel is applied to a vertex \<open>v\<close> is expressed with it: the run
  is the same for every \<open>kern\<close> that differs from the kernel of the method at \<open>v\<close> only.
\<close>

definition smooth_using ::
  "environment \<Rightarrow> (smooth3d \<Rightarrow> int \<Rightarrow> error + bool \<times> smooth3d) \<Rightarrow> smooth3d \<Rightarrow> string \<Rightarrow> int
     \<Rightarrow> real \<Rightarrow> error + smooth3d" where
  "smooth_using env kern s method max_iterations quality_tol =
     (let s0 = (if quality_tol > 0 then s\<lparr>good_q := quality_tol\<rparr> else s) in
      ebind (init_cache env s0 method) (\<lambda>s1.
      ebind (if mpi_nparts s1 > 1 then find_halo_elements s1 [0..<NElements s1] else Inr [])
        (\<lambda>halo_elements.
          if colour_sets s1 = [] then Inl OutOfRange
          else
            (let max_colour0 = fst (last (colour_sets s1));
                 max_colour = (if mpi_nparts s1 > 1 then allreduce_max env max_colour0
                               else max_colour0)
             in ebind (sweeps env kern halo_elements max_colour
                         (0 # [1..<nat max_iterations])
                         (s1, replicate (NNodes s1) 0))
                  (\<lambda>(s2, active_vertices). Inr s2)))))"

text \<open>The kernel that fails at \<open>v\<close> and is the kernel of the method elsewhere.\<close>

definition kernel_failing_at ::
  "int \<Rightarrow> environment \<Rightarrow> string \<Rightarrow> smooth3d \<Rightarrow> int \<Rightarrow> error + bool \<times> smooth3d" where
  "kernel_failing_at v env method s node =
     (if node = v then Inl AssertionFailed else smooth_kernel env method s node)"
section \<open>Example meshes\<close>

text \<open>
  Concrete inputs on which the definitions are evaluated. The metric of every vertex
  is the identity, stored as its six upper-triangular entries.
\<close>

definition identity_metric :: "real list" where
  "identity_metric = [1, 0, 0, 1, 0, 1]"

text \<open>
  A single tetrahedron stored in the second of two element slots; the first slot holds
  a deleted element (first vertex \<open>-1\<close>), as coarsening leaves it.
\<close>

definition deleted_slot_mesh :: smooth3d where
  "deleted_slot_mesh =
     \<lparr>number_dimensions = 3, NNodes = 4, NElements = 2,
      coords = [0, 0, 0,  1, 0, 0,  0, 1, 0,  0, 0, 1],
      metric = identity_metric @ identity_metric @ identity_metric @ identity_metric,
      ENList = [- 1, - 1, - 1, - 1,  0, 1, 2, 3],
      NNList = [[1, 2, 3], [0, 2, 3], [0, 1, 3], [0, 1, 2]],
      NEList = [[1], [1], [1], [1]],
      Edges = [],
      boundary = [0, 0, 0, 0,  1, 1, 1, 1],
      recv_halo = [], send = [], recv = [],
      is_owned_node = (\<lambda>v. True),
      good_q = 0, epsilon_q = 1 / 1000000, quality = [], colour_sets = [],
      mpi_nparts = 1\<rparr>"

text \<open>
  Modelled from the spec: the signed volume of a tetrahedron (\<open>ElementProperty::volume\<close>
  is not among the sources), here with the orientation of the reference element
  positive: a sixth of the determinant of the three edge vectors from the first vertex.
\<close>

definition tet_volume :: "point \<Rightarrow> point \<Rightarrow> point \<Rightarrow> point \<Rightarrow> real" where
  "tet_volume a b c d =
     (let x1 = b ! 0 - a ! 0; y1 = b ! 1 - a ! 1; z1 = b ! 2 - a ! 2;
          x2 = c ! 0 - a ! 0; y2 = c ! 1 - a ! 1; z2 = c ! 2 - a ! 2;
          x3 = d ! 0 - a ! 0; y3 = d ! 1 - a ! 1; z3 = d ! 2 - a ! 2
      in (x1 * (y2 * z3 - z2 * y3) - y1 * (x2 * z3 - z2 * x3) + z1 * (x2 * y3 - y2 * x3)) / 6)"

text \<open>
  Modelled from the spec: the signed area of a triangle (\<open>ElementProperty::area\<close>),
  positive for a counter-clockwise triangle.
\<close>

definition tri_area :: "point \<Rightarrow> point \<Rightarrow> point \<Rightarrow> real" where
  "tri_area a b c =
     ((b ! 0 - a ! 0) * (c ! 1 - a ! 1) - (c ! 0 - a ! 0) * (b ! 1 - a ! 1)) / 2"

text \<open>
  The solution of \<open>A b = q\<close> for a diagonal matrix \<open>A\<close>, standing for the SVD solver on
  the examples, whose matrices are diagonal.
\<close>

definition diagonal_solve :: "real list \<Rightarrow> real list \<Rightarrow> real list" where
  "diagonal_solve A q = [q ! 0 / A ! 0, q ! 1 / A ! 4, q ! 2 / A ! 8]"

text \<open>
  An environment for the examples. Its quality function decreases linearly with the
  first coordinate of the element's first vertex; on the examples its values lie in
  \<open>(0, 1]\<close>. The colouring gives the vertices the colours \<open>1, 2, \<dots>\<close> in order.
\<close>

definition example_env :: environment where
  "example_env =
     \<lparr>property =
        \<lparr>area = tri_area, volume = tet_volume,
         lipnikov = (\<lambda>x0 x1 x2 x3 m0 m1 m2 m3. 1 / 2 - x0 ! 0),
         lipnikov_grad = (\<lambda>loc x0 x1 x2 x3 m0. [- 1, 0, 0])\<rparr>,
      svd_solve = diagonal_solve,
      GebremedhinManne = (\<lambda>n nn sd rc. map int [1..<n + 1]),
      allreduce_max = (\<lambda>c. c),
      incoming_coords = (\<lambda>iter ic v. [- 1, - 1, - 3 / 2]),
      incoming_metric = (\<lambda>iter ic v. identity_metric)\<rparr>"

text \<open>
  Four tetrahedra around the interior vertex 0, which sits at \<open>(10\<^sup>-\<^sup>6, 0, 0)\<close>, just off
  the centroid of its four neighbours; the cache holds the qualities of the elements.
\<close>

definition star_mesh :: smooth3d where
  "star_mesh =
     \<lparr>number_dimensions = 3, NNodes = 5, NElements = 4,
      coords = [1 / 1000000, 0, 0,  1, 0, 0,  0, 1, 0,  0, 0, 1,  - 1, - 1, - 1],
      metric = identity_metric @ identity_metric @ identity_metric @ identity_metric
               @ identity_metric,
      ENList = [0, 1, 2, 3,  0, 1, 3, 4,  0, 2, 1, 4,  0, 3, 2, 4],
      NNList = [[1, 2, 3, 4], [0, 2, 3, 4], [0, 1, 3, 4], [0, 1, 2, 4], [0, 1, 2, 3]],
      NEList = [[0, 1, 2, 3], [0, 1, 2], [0, 2, 3], [0, 1, 3], [1, 2, 3]],
      Edges = [],
      boundary = [1, 0, 0, 0,  1, 0, 0, 0,  1, 0, 0, 0,  1, 0, 0, 0],
      recv_halo = [], send = [], recv = [],
      is_owned_node = (\<lambda>v. True),
      good_q = 0, epsilon_q = 1 / 1000000,
      quality = [1 / 2 - 1 / 1000000, 1 / 2 - 1 / 1000000, 1 / 2 - 1 / 1000000,
                 1 / 2 - 1 / 1000000],
      colour_sets = [],
      mpi_nparts = 1\<rparr>"




text \<open>
  Six tetrahedra around the interior vertex 0 at \<open>(0, 0, 1)\<close>: a triangular bipyramid
  whose lower apex (vertex 5, at the origin) is pushed in above the triangle of the
  vertices 1, 2, 3, so that the centroid \<open>(0, 0, -5)\<close> of the five neighbours lies
  outside the cavity, below the three lower tetrahedra.
\<close>

definition dent_mesh :: smooth3d where
  "dent_mesh =
     \<lparr>number_dimensions = 3, NNodes = 6, NElements = 6,
      coords = [0, 0, 1,  1, 0, - 10,  0, 1, - 10,  - 1, - 1, - 10,  0, 0, 5,  0, 0, 0],
      metric = identity_metric @ identity_metric @ identity_metric @ identity_metric
               @ identity_metric @ identity_metric,
      ENList = [0, 1, 2, 4,  0, 2, 3, 4,  0, 3, 1, 4,  0, 2, 1, 5,  0, 3, 2, 5,  0, 1, 3, 5],
      NNList = [[1, 2, 3, 4, 5], [0, 2, 3, 4, 5], [0, 1, 3, 4, 5], [0, 1, 2, 4, 5],
                [0, 1, 2, 3], [0, 1, 2, 3]],
      NEList = [[0, 1, 2, 3, 4, 5], [0, 2, 3, 5], [0, 1, 3, 4], [1, 2, 4, 5],
                [0, 1, 2], [3, 4, 5]],
      Edges = [],
      boundary = [1, 0, 0, 0,  1, 0, 0, 0,  1, 0, 0, 0,  1, 0, 0, 0,  1, 0, 0, 0,
                  1, 0, 0, 0],
      recv_halo = [], send = [], recv = [],
      is_owned_node = (\<lambda>v. True),
      good_q = 0, epsilon_q = 1 / 1000000,
      quality = [1 / 2, 1 / 2, 1 / 2, 1 / 2, 1 / 2, 1 / 2],
      colour_sets = [],
      mpi_nparts = 1\<rparr>"

text \<open>
  A two-dimensional mesh: four triangles around the interior vertex 0 at the origin,
  inside the non-convex quadrilateral with the corners \<open>1 = (4, 0)\<close>, \<open>2 = (1, 1)\<close>,
  \<open>3 = (0, 4)\<close>, \<open>4 = (-4, -4)\<close>. The cached metric lengths of the edges at vertex 0
  are \<open>0.3\<close>, \<open>0.5\<close>, \<open>0.6\<close> and \<open>0.9\<close>. Each boundary edge is a facet with a patch id
  of its own.
\<close>

definition kite_mesh :: mesh where
  "kite_mesh =
     \<lparr>number_dimensions = 2, NNodes = 5, NElements = 4,
      coords = [0, 0,  4, 0,  1, 1,  0, 4,  - 4, - 4],
      metric = [1, 0, 1,  1, 0, 1,  1, 0, 1,  1, 0, 1,  1, 0, 1],
      ENList = [0, 1, 2,  0, 2, 3,  0, 3, 4,  0, 4, 1],
      NNList = [[1, 2, 3, 4], [0, 2, 4], [0, 1, 3], [0, 2, 4], [0, 1, 3]],
      NEList = [[0, 1, 2, 3], [0, 3], [0, 1], [1, 2], [2, 3]],
      Edges =
        [\<lparr>edge_first = 0, edge_second = 1, length_e = 3 / 10, adjacent_elements = [0, 3]\<rparr>,
         \<lparr>edge_first = 0, edge_second = 2, length_e = 5 / 10, adjacent_elements = [0, 1]\<rparr>,
         \<lparr>edge_first = 0, edge_second = 3, length_e = 6 / 10, adjacent_elements = [1, 2]\<rparr>,
         \<lparr>edge_first = 0, edge_second = 4, length_e = 9 / 10, adjacent_elements = [2, 3]\<rparr>,
         \<lparr>edge_first = 1, edge_second = 2, length_e = 1, adjacent_elements = [0]\<rparr>,
         \<lparr>edge_first = 1, edge_second = 4, length_e = 1, adjacent_elements = [3]\<rparr>,
         \<lparr>edge_first = 2, edge_second = 3, length_e = 1, adjacent_elements = [1]\<rparr>,
         \<lparr>edge_first = 3, edge_second = 4, length_e = 1, adjacent_elements = [2]\<rparr>],
      boundary = [],
      recv_halo = [], send = [], recv = [],
      is_owned_node = (\<lambda>v. True)\<rparr>"

definition kite_surface :: surface where
  "kite_surface =
     \<lparr>ndims = 2, surface_nodes = [1, 2, 3, 4],
      SNEList = (\<lambda>v. if v = 1 then [0, 3] else if v = 2 then [0, 1]
                    else if v = 3 then [1, 2] else if v = 4 then [2, 3] else []),
      coplanar_ids = [1, 2, 3, 4]\<rparr>"

text \<open>The metric length of every edge between two boundary vertices of the example.\<close>

definition unit_length :: "int \<Rightarrow> int \<Rightarrow> real" where
  "unit_length a b = 1"

text \<open>The kite with vertex 1 received from another partition.\<close>

definition kite_halo_mesh :: mesh where
  "kite_halo_mesh = kite_mesh\<lparr>recv_halo := [1]\<rparr>"

text \<open>
  The star mesh as one partition of a distributed mesh sees it: vertex 4 is owned by
  rank 1 and received from it, the three elements that contain it are halo elements,
  and only the face \<open>(1, 2, 3)\<close> of element 0 lies on the boundary of the domain.
\<close>

definition halo_star_mesh :: smooth3d where
  "halo_star_mesh =
     star_mesh\<lparr>boundary := [1, 0, 0, 0,  0, 0, 0, 0,  0, 0, 0, 0,  0, 0, 0, 0],
               recv_halo := [4], send := [[], []], recv := [[], [4]],
               is_owned_node := (\<lambda>v. v \<noteq> 4),
               mpi_nparts := 2\<rparr>"

text \<open>
  A convex hexagon as a two-dimensional surface: facet 0 is vertical, the facets 2 and
  3 that follow it lean a little more each (the stored normals of facets 0 and 2, and
  of facets 2 and 3, are within the default tolerance of each other, those of facets
  0 and 3 are not), and three more facets close the polygon. \<open>hexagon_input\<close> holds
  the normals and the facet adjacency that \<open>calculate_coplanar_ids\<close> computes for it.
\<close>

definition hexagon_coords :: "real list" where
  "hexagon_coords =
     [0, 0,  0, 1,  - 10000, 25000002,  - 15000, 31250003,  - 20000, 31250003,  - 20000, 0]"

definition hexagon_SENList :: "int list" where
  "hexagon_SENList = [0, 1,  5, 0,  1, 2,  2, 3,  3, 4,  4, 5]"

definition hexagon_input :: patch_input where
  "hexagon_input =
     \<lparr>p_ndims = 2, p_snloc = 2, p_NSElements = 6,
      p_normals = [- 1, 0,  0, 1,  - (24999999 / 25000001), - (10000 / 25000001),
                   - (6249999 / 6250001), - (5000 / 6250001),  0, - 1,  1, 0],
      p_EEList = [1, 2,  5, 0,  0, 3,  2, 4,  3, 5,  4, 1],
      p_COPLANAR_MAGIC_NUMBER = 9999999 / 10000000\<rparr>"
section \<open>Properties of the surface queries\<close>

lemma ebind_Inr [simp]: "ebind (Inr x) f = f x"
  by (simp add: ebind_def)

lemma ebind_Inl [simp]: "ebind (Inl e) f = Inl e"
  by (simp add: ebind_def)

lemma ebind_eq_Inr:
  "ebind m f = Inr y \<longleftrightarrow> (\<exists>x. m = Inr x \<and> f x = Inr y)"
  by (cases m) simp_all

lemma set_set_insert [simp]: "set (set_insert x xs) = insert x (set xs)"
  by (induction xs) auto

lemma sorted_set_insert: "sorted xs \<Longrightarrow> sorted (set_insert x xs)"
  by (induction xs) auto

lemma distinct_set_insert: "sorted xs \<Longrightarrow> distinct xs \<Longrightarrow> distinct (set_insert x xs)"
  by (induction xs) auto

lemma incident_plane_loop_ok:
  "list_all (\<lambda>f. f < length ids) fs \<Longrightarrow>
   \<exists>r. incident_plane_loop ids fs acc = Inr r
      \<and> set r = set acc \<union> (\<lambda>f. ids ! f) ` set fs
      \<and> (sorted acc \<longrightarrow> distinct acc \<longrightarrow> sorted r \<and> distinct r)"
proof (induction fs arbitrary: acc)
  case Nil
  then show ?case by simp
next
  case (Cons f fs)
  from Cons.prems have f: "f < length ids" and fs: "list_all (\<lambda>f. f < length ids) fs"
    by simp_all
  from Cons.IH [OF fs, of "set_insert (ids ! f) acc"]
  obtain r where r: "incident_plane_loop ids fs (set_insert (ids ! f) acc) = Inr r"
    "set r = set (set_insert (ids ! f) acc) \<union> (\<lambda>f. ids ! f) ` set fs"
    "sorted (set_insert (ids ! f) acc) \<longrightarrow> distinct (set_insert (ids ! f) acc)
       \<longrightarrow> sorted r \<and> distinct r"
    by blast
  show ?case
    using f r by (auto simp: read_at_def sorted_set_insert distinct_set_insert)
qed

lemma incident_plane_ok:
  assumes "facets_in_range s v"
  shows "\<exists>r. incident_plane s v = Inr r \<and> set r = patch_ids s v
           \<and> sorted r \<and> distinct r \<and> length r = card (patch_ids s v)"
proof -
  from incident_plane_loop_ok [of "coplanar_ids s" "SNEList s v" "[]"] assms
  obtain r where r: "incident_plane s v = Inr r" "set r = patch_ids s v"
    "sorted r" "distinct r"
    by (auto simp: incident_plane_def facets_in_range_def patch_ids_def)
  from r(2,4) have "length r = card (patch_ids s v)"
    by (metis distinct_card)
  with r show ?thesis by blast
qed


lemma ebind_cong:
  "m = m' \<Longrightarrow> (\<And>x. m' = Inr x \<Longrightarrow> f x = g x) \<Longrightarrow> ebind m f = ebind m' g"
  by (cases m') (simp_all add: ebind_def)

lemmas deep_cong = ebind_cong if_cong prod.case_cong option.case_cong

lemma upt_2: "[0..<2] = [0, 1]"
  by (simp add: upt_rec)

lemma upt_4: "[0..<4] = [0, 1, 2, 3]"
  by (simp add: upt_rec)

lemma list_update_numeral:
  "(x # xs)[numeral k := y] = x # xs[pred_numeral k := y]"
  by (simp add: numeral_eq_Suc)
text \<open>
  C3. For every pair of vertices \<open>(free, target)\<close> of a two- or three-dimensional
  surface: \<open>is_collapsible\<close> returns true when \<open>free\<close> is not a boundary vertex. For a
  boundary vertex \<open>free\<close> whose facet numbers index \<open>coplanar_ids\<close>, it returns false
  when \<open>P(free)\<close> has at least \<open>D\<close> members (a corner); when \<open>P(free)\<close> has \<open>D - 1\<close>
  members it returns true iff every patch id of \<open>P(free)\<close> occurs in \<open>P(target)\<close>; and
  when \<open>P(free)\<close> has one member it returns true iff that patch id occurs in
  \<open>P(target)\<close>.
\<close>

theorem is_collapsible_cases:
  assumes D: "ndims s = 2 \<or> ndims s = 3"
  shows "(\<not> contains_node s free \<longrightarrow> is_collapsible s free target = Inr True)
    \<and> (contains_node s free \<and> facets_in_range s free \<longrightarrow>
         (card (patch_ids s free) \<ge> ndims s \<longrightarrow> is_collapsible s free target = Inr False)
       \<and> (facets_in_range s target \<longrightarrow>
           (card (patch_ids s free) = ndims s - 1 \<longrightarrow>
              is_collapsible s free target
                = Inr (patch_ids s free \<subseteq> patch_ids s target))
         \<and> (card (patch_ids s free) = 1 \<longrightarrow>
              is_collapsible s free target
                = Inr (\<forall>p. patch_ids s free = {p} \<longrightarrow> p \<in> patch_ids s target))))"
proof (intro conjI impI)
  assume "\<not> contains_node s free"
  then show "is_collapsible s free target = Inr True"
    by (simp add: is_collapsible_def contains_node_def)
next
  assume a: "contains_node s free \<and> facets_in_range s free"
    and c: "ndims s \<le> card (patch_ids s free)"
  from a incident_plane_ok [of s free]
  obtain r where r: "incident_plane s free = Inr r" "length r = card (patch_ids s free)"
    by blast
  from a c r show "is_collapsible s free target = Inr False"
    by (simp add: is_collapsible_def contains_node_def)
next
  assume a: "contains_node s free \<and> facets_in_range s free"
    and t: "facets_in_range s target"
    and c: "card (patch_ids s free) = ndims s - 1"
  from a incident_plane_ok [of s free]
  obtain r where r: "incident_plane s free = Inr r" "set r = patch_ids s free"
    "length r = card (patch_ids s free)"
    by blast
  from t incident_plane_ok [of s target]
  obtain q where q: "incident_plane s target = Inr q" "set q = patch_ids s target"
    by blast
  show "is_collapsible s free target = Inr (patch_ids s free \<subseteq> patch_ids s target)"
  proof (cases "ndims s = 2")
    case True
    with c r(3) have "length r = 1" by simp
    then obtain p where p: "r = [p]"
      by (cases r) auto
    with r(2) have "patch_ids s free = {p}" by simp
    with a True r(1) q p show ?thesis
      by (simp add: is_collapsible_def contains_node_def set_count_def)
  next
    case False
    with D have D3: "ndims s = 3" by simp
    with c r(3) have "length r = 2" by simp
    then obtain p1 p2 where p: "r = [p1, p2]"
      by (cases r; cases "tl r") auto
    with r(2) have "patch_ids s free = {p1, p2}" by auto
    with a D3 r(1) q p show ?thesis
      by (simp add: is_collapsible_def contains_node_def set_count_def)
  qed
next
  assume a: "contains_node s free \<and> facets_in_range s free"
    and t: "facets_in_range s target"
    and c: "card (patch_ids s free) = 1"
  from a incident_plane_ok [of s free]
  obtain r where r: "incident_plane s free = Inr r" "set r = patch_ids s free"
    "length r = card (patch_ids s free)"
    by blast
  from t incident_plane_ok [of s target]
  obtain q where q: "incident_plane s target = Inr q" "set q = patch_ids s target"
    by blast
  from c r(3) have "length r = 1" by simp
  then obtain p where p: "r = [p]"
    by (cases r) auto
  with r(2) have "patch_ids s free = {p}" by simp
  with a D r(1) q p
  show "is_collapsible s free target
          = Inr (\<forall>p. patch_ids s free = {p} \<longrightarrow> p \<in> patch_ids s target)"
    by (auto simp: is_collapsible_def contains_node_def set_count_def)
qed

text \<open>
  A vertex on a geometric edge of a three-dimensional surface (facets of patches 1 and
  2) and a target touching both patches.
\<close>

theorem is_collapsible_cases_witness:
  "is_collapsible
     \<lparr>ndims = 3, surface_nodes = [0, 1], SNEList = (\<lambda>v. if v = 0 then [0, 1] else [0, 1, 2]),
      coplanar_ids = [1, 2, 1]\<rparr> 0 1 = Inr True
   \<and> is_collapsible
     \<lparr>ndims = 3, surface_nodes = [0, 1], SNEList = (\<lambda>v. if v = 0 then [0, 1] else [0, 1, 2]),
      coplanar_ids = [1, 2, 1]\<rparr> 5 1 = Inr True"
  using is_collapsible_cases [of
     "\<lparr>ndims = 3, surface_nodes = [0, 1], SNEList = (\<lambda>v. if v = 0 then [0, 1] else [0, 1, 2]),
      coplanar_ids = [1, 2, 1]\<rparr>" 0 1]
    is_collapsible_cases [of
     "\<lparr>ndims = 3, surface_nodes = [0, 1], SNEList = (\<lambda>v. if v = 0 then [0, 1] else [0, 1, 2]),
      coplanar_ids = [1, 2, 1]\<rparr>" 5 1]
  by (simp add: contains_node_def set_count_def facets_in_range_def patch_ids_def)

subsection \<open>The flood fill\<close>

lemma unlabelled_update:
  assumes "n < length ids" and "ids ! n \<le> 0" and "c > 0"
  shows "Suc (unlabelled (ids[n := c])) = unlabelled ids"
proof -
  have ids: "ids = take n ids @ ids ! n # drop (Suc n) ids"
    using assms(1) by (simp add: id_take_nth_drop)
  have upd: "ids[n := c] = take n ids @ c # drop (Suc n) ids"
    using assms(1) by (simp add: upd_conv_take_nth_drop)
  have "unlabelled ids = unlabelled (take n ids) + 1 + unlabelled (drop (Suc n) ids)"
    by (subst ids) (simp add: unlabelled_def assms(2))
  moreover have "unlabelled (ids[n := c])
      = unlabelled (take n ids) + unlabelled (drop (Suc n) ids)"
    using assms(3) by (subst upd) (simp add: unlabelled_def)
  ultimately show ?thesis by simp
qed

lemma length_set_insert: "length (set_insert x xs) \<le> Suc (length xs)"
  by (induction xs) auto

lemma check_surrounding_Cons:
  assumes "check_surrounding inp pos cur sele (i # is) (front, ids) = Inr r"
  shows "\<exists>sele2. read_int (p_EEList inp) (sele * int (p_snloc inp) + int i) = Inr sele2
     \<and> 0 \<le> sele2 \<and> nat sele2 < length ids
     \<and> check_surrounding inp pos cur sele is (visit inp pos cur sele2 (front, ids)) = Inr r"
proof -
  from assms obtain sele2 id2 where
    s2: "read_int (p_EEList inp) (sele * int (p_snloc inp) + int i) = Inr sele2"
    and id2: "read_int ids sele2 = Inr id2"
    by (auto simp: ebind_eq_Inr)
  from id2 have rng: "0 \<le> sele2" "nat sele2 < length ids" and v: "id2 = ids ! nat sele2"
    by (auto simp: read_int_def split: if_splits)
  show ?thesis
  proof (cases "id2 > 0")
    case True
    with assms s2 id2 v rng show ?thesis
      by (simp add: visit_def)
  next
    case False
    with assms s2 id2 obtain coplanar where
      c: "coplanar_sum (p_normals inp) (p_ndims inp) pos sele2 [0..<p_ndims inp] 0
            = Inr coplanar"
      by (auto simp: ebind_eq_Inr)
    with assms s2 id2 v rng False show ?thesis
      by (auto simp: visit_def near_coplanar_def split: if_splits)
  qed
qed

lemma grows_refl [simp]: "grows inp pos cur st st"
  by (cases st) (simp add: grows_def)

lemma grows_trans:
  assumes "cur > 0" and "grows inp pos cur st st'" and "grows inp pos cur st' st''"
  shows "grows inp pos cur st st''"
proof -
  obtain front ids front' ids' front'' ids'' where
    st: "st = (front, ids)" "st' = (front', ids')" "st'' = (front'', ids'')"
    by (cases st, cases st', cases st'') auto
  from assms(2) have a: "length ids' = length ids"
    "\<And>f. f < length ids \<Longrightarrow> ids ! f > 0 \<Longrightarrow> ids' ! f = ids ! f"
    "\<And>f. f < length ids \<Longrightarrow> ids' ! f \<noteq> ids ! f \<Longrightarrow>
        ids' ! f = cur \<and> near_coplanar inp pos (int f) \<and> int f \<in> set front'"
    "set front \<subseteq> set front'"
    "\<And>x. x \<in> set front' \<Longrightarrow> x \<in> set front
            \<or> (0 \<le> x \<and> nat x < length ids \<and> ids' ! nat x \<noteq> ids ! nat x)"
    "2 * unlabelled ids' + length front' \<le> 2 * unlabelled ids + length front"
    by (auto simp: grows_def st)
  from assms(3) have b: "length ids'' = length ids'"
    "\<And>f. f < length ids' \<Longrightarrow> ids' ! f > 0 \<Longrightarrow> ids'' ! f = ids' ! f"
    "\<And>f. f < length ids' \<Longrightarrow> ids'' ! f \<noteq> ids' ! f \<Longrightarrow>
        ids'' ! f = cur \<and> near_coplanar inp pos (int f) \<and> int f \<in> set front''"
    "set front' \<subseteq> set front''"
    "\<And>x. x \<in> set front'' \<Longrightarrow> x \<in> set front'
            \<or> (0 \<le> x \<and> nat x < length ids' \<and> ids'' ! nat x \<noteq> ids' ! nat x)"
    "2 * unlabelled ids'' + length front'' \<le> 2 * unlabelled ids' + length front'"
    by (auto simp: grows_def st)
  have 1: "length ids'' = length ids" using a(1) b(1) by simp
  have 2: "ids'' ! f = ids ! f" if "f < length ids" "ids ! f > 0" for f
    using that a(1) a(2) [of f] b(2) [of f] by simp
  have 3: "ids'' ! f = cur \<and> near_coplanar inp pos (int f) \<and> int f \<in> set front''"
    if "f < length ids" "ids'' ! f \<noteq> ids ! f" for f
  proof (cases "ids' ! f = ids ! f")
    case True
    with that a(1) b(3) [of f] show ?thesis by simp
  next
    case False
    with that(1) a(3) [of f] have c: "ids' ! f = cur" "near_coplanar inp pos (int f)"
      "int f \<in> set front'" by simp_all
    with assms(1) that(1) a(1) b(2) [of f] have "ids'' ! f = cur" by simp
    with c b(4) show ?thesis by auto
  qed
  have 4: "set front \<subseteq> set front''" using a(4) b(4) by blast
  have 5: "x \<in> set front \<or> (0 \<le> x \<and> nat x < length ids \<and> ids'' ! nat x \<noteq> ids ! nat x)"
    if "x \<in> set front''" for x
  proof (cases "x \<in> set front'")
    case True
    from a(5) [OF this] show ?thesis
    proof
      assume "x \<in> set front" then show ?thesis ..
    next
      assume c: "0 \<le> x \<and> nat x < length ids \<and> ids' ! nat x \<noteq> ids ! nat x"
      with a(3) [of "nat x"] have "ids' ! nat x = cur" by simp
      with c assms(1) a(1) b(2) [of "nat x"] have "ids'' ! nat x = ids' ! nat x" by simp
      with c show ?thesis by simp
    qed
  next
    case False
    with b(5) [OF that] have c: "0 \<le> x" "nat x < length ids'" "ids'' ! nat x \<noteq> ids' ! nat x"
      by simp_all
    have "ids' ! nat x = ids ! nat x \<or> ids' ! nat x = cur"
      using a(3) [of "nat x"] c(2) a(1) by auto
    moreover have "ids' ! nat x \<noteq> cur"
      using c assms(1) b(2) [of "nat x"] by auto
    ultimately show ?thesis using c a(1) by auto
  qed
  have 6: "2 * unlabelled ids'' + length front'' \<le> 2 * unlabelled ids + length front"
    using a(6) b(6) by simp
  from 1 2 3 4 5 6 show ?thesis
    by (simp add: grows_def st)
qed

lemma visit_grows:
  assumes "cur > 0" and "0 \<le> sele2" and "nat sele2 < length ids"
  shows "grows inp pos cur (front, ids) (visit inp pos cur sele2 (front, ids))"
proof (cases "ids ! nat sele2 > 0 \<or> \<not> near_coplanar inp pos sele2")
  case True
  then show ?thesis by (auto simp: visit_def)
next
  case False
  then have v: "visit inp pos cur sele2 (front, ids)
      = (set_insert sele2 front, ids[nat sele2 := cur])"
    and le: "ids ! nat sele2 \<le> 0" and nc: "near_coplanar inp pos sele2"
    by (auto simp: visit_def)
  from unlabelled_update [OF assms(3) le assms(1)] length_set_insert [of sele2 front]
  have "2 * unlabelled (ids[nat sele2 := cur]) + length (set_insert sele2 front)
          \<le> 2 * unlabelled ids + length front"
    by simp
  with assms nc le show ?thesis
    by (auto simp: grows_def v nth_list_update)
qed

lemma visit_settles:
  assumes "cur > 0" and "0 \<le> sele2" and "nat sele2 < length ids"
    and "visit inp pos cur sele2 (front, ids) = (front', ids')"
  shows "ids' ! nat sele2 > 0 \<or> \<not> near_coplanar inp pos sele2"
  using assms by (auto simp: visit_def split: if_splits)

lemma visit_changes:
  assumes "visit inp pos cur sele2 (front, ids) = (front', ids')" and "ids' ! f \<noteq> ids ! f"
  shows "f = nat sele2"
  using assms by (cases "f = nat sele2") (auto simp: visit_def split: if_splits)

lemma check_surrounding_grows:
  assumes cur: "cur > 0"
  shows "check_surrounding inp pos cur sele is (front, ids) = Inr (front', ids') \<Longrightarrow>
     grows inp pos cur (front, ids) (front', ids')
     \<and> (\<forall>i \<in> set is. \<exists>f. read_int (p_EEList inp) (sele * int (p_snloc inp) + int i) = Inr f
            \<and> 0 \<le> f \<and> nat f < length ids
            \<and> (ids' ! nat f > 0 \<or> \<not> near_coplanar inp pos f))
     \<and> (\<forall>f < length ids. ids' ! f \<noteq> ids ! f \<longrightarrow>
            (\<exists>i \<in> set is. read_int (p_EEList inp) (sele * int (p_snloc inp) + int i)
                            = Inr (int f)))"
proof (induction "is" arbitrary: front ids)
  case Nil
  then show ?case by simp
next
  case (Cons i "is")
  from check_surrounding_Cons [OF Cons.prems] obtain sele2 where
    rd: "read_int (p_EEList inp) (sele * int (p_snloc inp) + int i) = Inr sele2"
    and rng: "0 \<le> sele2" "nat sele2 < length ids"
    and rest: "check_surrounding inp pos cur sele is (visit inp pos cur sele2 (front, ids))
                 = Inr (front', ids')"
    by blast
  obtain f1 i1 where v: "visit inp pos cur sele2 (front, ids) = (f1, i1)"
    by (cases "visit inp pos cur sele2 (front, ids)")
  from visit_grows [OF cur rng, of inp pos front] v
  have g1: "grows inp pos cur (front, ids) (f1, i1)" by simp
  then have len1: "length i1 = length ids" by (simp add: grows_def)
  from Cons.IH [OF rest [unfolded v]]
  have g2: "grows inp pos cur (f1, i1) (front', ids')"
    and settled: "\<forall>i \<in> set is. \<exists>f.
            read_int (p_EEList inp) (sele * int (p_snloc inp) + int i) = Inr f
            \<and> 0 \<le> f \<and> nat f < length i1
            \<and> (ids' ! nat f > 0 \<or> \<not> near_coplanar inp pos f)"
    and via: "\<forall>f < length i1. ids' ! f \<noteq> i1 ! f \<longrightarrow>
            (\<exists>i \<in> set is. read_int (p_EEList inp) (sele * int (p_snloc inp) + int i)
                            = Inr (int f))"
    by simp_all
  from grows_trans [OF cur g1 g2] have g: "grows inp pos cur (front, ids) (front', ids')" .
  have head: "ids' ! nat sele2 > 0 \<or> \<not> near_coplanar inp pos sele2"
  proof (cases "i1 ! nat sele2 > 0")
    case True
    with g2 rng len1 have "ids' ! nat sele2 = i1 ! nat sele2"
      by (simp add: grows_def)
    with True show ?thesis by simp
  next
    case False
    with visit_settles [OF cur rng v] show ?thesis by simp
  qed
  have settled': "\<forall>i' \<in> set (i # is). \<exists>f.
            read_int (p_EEList inp) (sele * int (p_snloc inp) + int i') = Inr f
            \<and> 0 \<le> f \<and> nat f < length ids
            \<and> (ids' ! nat f > 0 \<or> \<not> near_coplanar inp pos f)"
    using settled rd rng head len1 by auto
  have via': "\<forall>f < length ids. ids' ! f \<noteq> ids ! f \<longrightarrow>
            (\<exists>i' \<in> set (i # is). read_int (p_EEList inp) (sele * int (p_snloc inp) + int i')
                            = Inr (int f))"
  proof (intro allI impI)
    fix f assume f: "f < length ids" "ids' ! f \<noteq> ids ! f"
    show "\<exists>i' \<in> set (i # is). read_int (p_EEList inp) (sele * int (p_snloc inp) + int i')
                            = Inr (int f)"
    proof (cases "i1 ! f = ids ! f")
      case True
      with f via len1 show ?thesis by auto
    next
      case False
      with visit_changes [OF v] have "f = nat sele2" by simp
      with rd rng show ?thesis by simp
    qed
  qed
  from g settled' via' show ?case by blast
qed

lemma check_surrounding_one:
  assumes "read_int (p_EEList inp) (sele * int (p_snloc inp) + int i) = Inr f"
    and "read_int ids f = Inr 0"
    and "check_surrounding inp pos cur sele [i] (front, ids) = Inr st'"
  shows "st' = (if near_coplanar inp pos f
                then (set_insert f front, ids[nat f := cur]) else (front, ids))"
proof -
  from check_surrounding_Cons [OF assms(3)] assms(1)
  have "check_surrounding inp pos cur sele [] (visit inp pos cur f (front, ids)) = Inr st'"
    by auto
  then have "visit inp pos cur f (front, ids) = st'"
    by (cases "visit inp pos cur f (front, ids)") simp
  moreover from assms(2) have "ids ! nat f = 0"
    by (auto simp: read_int_def split: if_splits)
  ultimately show ?thesis by (simp add: visit_def)
qed

lemma patch_step_mono:
  assumes "length ids' = length ids"
    and "\<And>f. f < length ids \<Longrightarrow> ids ! f > 0 \<Longrightarrow> ids' ! f = ids ! f"
    and "patch_step inp ids a b"
  shows "patch_step inp ids' a b"
  using assms(3) assms(1) assms(2) [of a] assms(2) [of b]
  by (auto simp: patch_step_def)

lemma patch_reach_mono:
  assumes "length ids' = length ids"
    and "\<And>f. f < length ids \<Longrightarrow> ids ! f > 0 \<Longrightarrow> ids' ! f = ids ! f"
    and "(patch_step inp ids)\<^sup>*\<^sup>* a b"
  shows "(patch_step inp ids')\<^sup>*\<^sup>* a b"
  using assms(3)
proof (induction rule: rtranclp_induct)
  case base
  show ?case by simp
next
  case (step y z)
  from patch_step_mono [OF assms(1,2) step.hyps(2)] step.IH show ?case
    by (rule rtranclp.rtrancl_into_rtrancl [rotated])
qed

lemma settled_mono:
  assumes "settled inp pos ids g" and "length ids' = length ids"
    and "\<And>f. f < length ids \<Longrightarrow> ids ! f > 0 \<Longrightarrow> ids' ! f = ids ! f"
  shows "settled inp pos ids' g"
  unfolding settled_def
proof (intro allI impI)
  fix i assume "i < p_snloc inp"
  with assms(1) obtain f where f: "read_int (p_EEList inp) (g * int (p_snloc inp) + int i) = Inr f"
    "0 \<le> f" "nat f < length ids" "ids ! nat f > 0 \<or> \<not> near_coplanar inp pos f"
    unfolding settled_def by blast
  from f(3,4) assms(3) [of "nat f"] have "ids' ! nat f > 0 \<or> \<not> near_coplanar inp pos f"
    by auto
  with f assms(2)
  show "\<exists>f. read_int (p_EEList inp) (g * int (p_snloc inp) + int i) = Inr f
         \<and> 0 \<le> f \<and> nat f < length ids'
         \<and> (ids' ! nat f > 0 \<or> \<not> near_coplanar inp pos f)"
    by auto
qed

lemma advance_front_total:
  assumes cur: "cur > 0"
  shows "(\<forall>x \<in> set front. 0 \<le> x \<and> nat x < length ids \<and> ids ! nat x = cur) \<Longrightarrow>
     (\<forall>g < length ids. ids ! g = cur \<and> int g \<notin> set front \<longrightarrow> settled inp pos ids (int g)) \<Longrightarrow>
     (\<forall>g < length ids. ids ! g = cur \<longrightarrow> (patch_step inp ids)\<^sup>*\<^sup>* pos g) \<Longrightarrow>
     \<exists>r. advance_front inp pos cur front ids = Some r
       \<and> (\<forall>ids'. r = Inr ids' \<longrightarrow> labels inp pos cur ids ids'
             \<and> (\<forall>g < length ids. ids' ! g = cur \<longrightarrow> settled inp pos ids' (int g))
             \<and> (\<forall>g < length ids. ids' ! g = cur \<longrightarrow> (patch_step inp ids')\<^sup>*\<^sup>* pos g))"
proof (induction "2 * unlabelled ids + length front" arbitrary: front ids rule: less_induct)
  case less
  show ?case
  proof (cases front)
    case Nil
    with less.prems(2,3) show ?thesis
      by (subst advance_front.simps) (simp add: labels_def)
  next
    case (Cons sele rest)
    show ?thesis
    proof (cases "check_surrounding inp pos cur sele [0..<p_snloc inp] (rest, ids)")
      case (Inl e)
      with Cons show ?thesis
        by (subst advance_front.simps) simp
    next
      case (Inr st)
      obtain front' ids' where st: "st = (front', ids')" by (cases st)
      from check_surrounding_grows [OF cur Inr [unfolded st]]
      have g: "grows inp pos cur (rest, ids) (front', ids')"
        and nb: "\<forall>i \<in> set [0..<p_snloc inp]. \<exists>f.
            read_int (p_EEList inp) (sele * int (p_snloc inp) + int i) = Inr f
            \<and> 0 \<le> f \<and> nat f < length ids
            \<and> (ids' ! nat f > 0 \<or> \<not> near_coplanar inp pos f)"
        and via: "\<forall>f < length ids. ids' ! f \<noteq> ids ! f \<longrightarrow>
            (\<exists>i \<in> set [0..<p_snloc inp].
                read_int (p_EEList inp) (sele * int (p_snloc inp) + int i) = Inr (int f))"
        by simp_all
      from g have len: "length ids' = length ids"
        and keep: "\<And>f. f < length ids \<Longrightarrow> ids ! f > 0 \<Longrightarrow> ids' ! f = ids ! f"
        and new: "\<And>f. f < length ids \<Longrightarrow> ids' ! f \<noteq> ids ! f \<Longrightarrow>
            ids' ! f = cur \<and> near_coplanar inp pos (int f) \<and> int f \<in> set front'"
        and sub: "set rest \<subseteq> set front'"
        and fr: "\<And>x. x \<in> set front' \<Longrightarrow> x \<in> set rest
            \<or> (0 \<le> x \<and> nat x < length ids \<and> ids' ! nat x \<noteq> ids ! nat x)"
        and meas: "2 * unlabelled ids' + length front' \<le> 2 * unlabelled ids + length rest"
        by (auto simp: grows_def)
      from less.prems(1) Cons have sele: "0 \<le> sele" "nat sele < length ids"
        "ids ! nat sele = cur"
        by simp_all
      with keep cur have sele': "ids' ! nat sele = cur" by simp
      have m: "2 * unlabelled ids' + length front' < 2 * unlabelled ids + length front"
        using meas Cons by simp
      have p1: "\<forall>x \<in> set front'. 0 \<le> x \<and> nat x < length ids' \<and> ids' ! nat x = cur"
      proof
        fix x assume "x \<in> set front'"
        from fr [OF this] show "0 \<le> x \<and> nat x < length ids' \<and> ids' ! nat x = cur"
        proof
          assume "x \<in> set rest"
          with less.prems(1) Cons have "0 \<le> x" "nat x < length ids" "ids ! nat x = cur"
            by simp_all
          with keep [of "nat x"] cur len show ?thesis by simp
        next
          assume "0 \<le> x \<and> nat x < length ids \<and> ids' ! nat x \<noteq> ids ! nat x"
          with new [of "nat x"] len show ?thesis by simp
        qed
      qed
      have p2: "\<forall>g < length ids'. ids' ! g = cur \<and> int g \<notin> set front'
                  \<longrightarrow> settled inp pos ids' (int g)"
      proof (intro allI impI)
        fix g assume gl: "g < length ids'" and gc: "ids' ! g = cur \<and> int g \<notin> set front'"
        have same: "ids ! g = cur"
        proof (rule ccontr)
          assume "ids ! g \<noteq> cur"
          with gc have "ids' ! g \<noteq> ids ! g" by simp
          from new [OF _ this] gl len gc show False by simp
        qed
        show "settled inp pos ids' (int g)"
        proof (cases "int g = sele")
          case True
          with nb len show ?thesis
            by (auto simp: settled_def)
        next
          case False
          with gc sub Cons have "int g \<notin> set front" by auto
          with less.prems(2) gl len same have "settled inp pos ids (int g)" by simp
          from settled_mono [OF this len keep] show ?thesis by simp
        qed
      qed
      have p3: "\<forall>g < length ids'. ids' ! g = cur \<longrightarrow> (patch_step inp ids')\<^sup>*\<^sup>* pos g"
      proof (intro allI impI)
        fix g assume gl: "g < length ids'" and gc: "ids' ! g = cur"
        have rs: "(patch_step inp ids')\<^sup>*\<^sup>* pos (nat sele)"
          using less.prems(3) sele patch_reach_mono [OF len keep] by blast
        show "(patch_step inp ids')\<^sup>*\<^sup>* pos g"
        proof (cases "ids' ! g = ids ! g")
          case True
          with less.prems(3) gl gc len patch_reach_mono [OF len keep] show ?thesis
            by simp
        next
          case False
          with via gl len obtain i where "i < p_snloc inp"
            "read_int (p_EEList inp) (sele * int (p_snloc inp) + int i) = Inr (int g)"
            by auto
          then have "facet_neighbour inp (int (nat sele)) (int g)"
            using sele(1) by (auto simp: facet_neighbour_def list_ex_iff)
          with sele' sele(2) gl gc len cur have "patch_step inp ids' (nat sele) g"
            by (simp add: patch_step_def)
          with rs show ?thesis by (rule rtranclp.rtrancl_into_rtrancl)
        qed
      qed
      from less.hyps [OF m p1 p2 p3] obtain r where
        r: "advance_front inp pos cur front' ids' = Some r"
        and post: "\<forall>ids''. r = Inr ids'' \<longrightarrow> labels inp pos cur ids' ids''
             \<and> (\<forall>g < length ids'. ids'' ! g = cur \<longrightarrow> settled inp pos ids'' (int g))
             \<and> (\<forall>g < length ids'. ids'' ! g = cur
                   \<longrightarrow> (patch_step inp ids'')\<^sup>*\<^sup>* pos g)"
        by blast
      have eq: "advance_front inp pos cur front ids = Some r"
        using Cons Inr st r by (subst advance_front.simps) simp
      have "labels inp pos cur ids ids'' \<and>
            (\<forall>g < length ids. ids'' ! g = cur \<longrightarrow> settled inp pos ids'' (int g)) \<and>
            (\<forall>g < length ids. ids'' ! g = cur \<longrightarrow> (patch_step inp ids'')\<^sup>*\<^sup>* pos g)"
        if "r = Inr ids''" for ids''
      proof -
        from post that have l: "labels inp pos cur ids' ids''"
          and s: "\<forall>g < length ids'. ids'' ! g = cur \<longrightarrow> settled inp pos ids'' (int g)"
          and c: "\<forall>g < length ids'. ids'' ! g = cur \<longrightarrow> (patch_step inp ids'')\<^sup>*\<^sup>* pos g"
          by simp_all
        from l have len2: "length ids'' = length ids'"
          and keep2: "\<And>f. f < length ids' \<Longrightarrow> ids' ! f > 0 \<Longrightarrow> ids'' ! f = ids' ! f"
          and new2: "\<And>f. f < length ids' \<Longrightarrow> ids'' ! f \<noteq> ids' ! f \<Longrightarrow>
            ids'' ! f = cur \<and> near_coplanar inp pos (int f)
            \<and> (\<exists>g < length ids'. ids'' ! g = cur \<and> facet_neighbour inp (int g) (int f))"
          by (auto simp: labels_def)
        from sele' sele(2) keep2 [of "nat sele"] cur len have sele'': "ids'' ! nat sele = cur"
          by simp
        have "labels inp pos cur ids ids''"
          unfolding labels_def
        proof (intro conjI allI impI)
          show "length ids'' = length ids" using len len2 by simp
        next
          fix f assume "f < length ids" "0 < ids ! f"
          with keep [of f] keep2 [of f] len show "ids'' ! f = ids ! f" by simp
        next
          fix f assume f: "f < length ids" "ids'' ! f \<noteq> ids ! f"
          show "ids'' ! f = cur"
            using f new [of f] new2 [of f] keep2 [of f] len cur by force
          show "near_coplanar inp pos (int f)"
            using f new [of f] new2 [of f] len by force
          show "\<exists>g < length ids. ids'' ! g = cur \<and> facet_neighbour inp (int g) (int f)"
          proof (cases "ids' ! f = ids ! f")
            case True
            with f new2 [of f] len show ?thesis by auto
          next
            case False
            with via f(1) obtain i where "i < p_snloc inp"
              "read_int (p_EEList inp) (sele * int (p_snloc inp) + int i) = Inr (int f)"
              by auto
            then have "facet_neighbour inp (int (nat sele)) (int f)"
              using sele(1) by (auto simp: facet_neighbour_def list_ex_iff)
            with sele'' sele(2) show ?thesis by blast
          qed
        qed
        with s c len show ?thesis by simp
      qed
      with eq show ?thesis by blast
    qed
  qed
qed

lemma find_upt_Some:
  assumes "find P [a..<b] = Some i"
  shows "a \<le> i \<and> i < b \<and> P i \<and> (\<forall>j. a \<le> j \<and> j < i \<longrightarrow> \<not> P j)"
proof -
  from assms obtain k where k: "k < length [a..<b]" "P ([a..<b] ! k)" "i = [a..<b] ! k"
    "\<forall>j < k. \<not> P ([a..<b] ! j)"
    by (auto simp: find_Some_iff)
  from k(1,3) have i: "i = a + k" "k < b - a" by simp_all
  have "\<not> P j" if "a \<le> j" "j < i" for j
  proof -
    from that i have "j - a < k" by simp
    with k(4) have "\<not> P ([a..<b] ! (j - a))" by blast
    moreover from that i have "[a..<b] ! (j - a) = j" by simp
    ultimately show ?thesis by simp
  qed
  with k(2) i show ?thesis by simp
qed

lemma patches_inv_final:
  assumes "patches_inv inp pos cur ids" and "\<forall>f < p_NSElements inp. 0 < ids ! f"
  shows "patches_ok inp ids"
proof -
  from assms(1) have rng: "\<And>f. f < p_NSElements inp \<Longrightarrow> ids ! f < cur"
    and ex: "\<And>k. 1 \<le> k \<Longrightarrow> k < cur \<Longrightarrow> \<exists>f < p_NSElements inp. ids ! f = k"
    and first: "(pos = 0 \<and> cur = 1) \<or> (0 < p_NSElements inp \<and> ids ! 0 = 1)"
    by (auto simp: patches_inv_def)
  have "ids ! 0 = 1" if "0 < p_NSElements inp"
    using first rng [OF that] assms(2) that by force
  moreover have "\<exists>f' < p_NSElements inp. ids ! f' = k"
    if "f < p_NSElements inp" "1 \<le> k" "k \<le> ids ! f" for f k
    using ex [of k] rng [of f] that by simp
  ultimately show ?thesis
    using assms unfolding patches_ok_def patches_inv_def
    by (intro conjI allI impI) force+
qed

lemma patches_inv_step:
  assumes inv: "patches_inv inp pos cur ids"
    and i: "pos \<le> i" "i < p_NSElements inp" "ids ! i = 0"
      "\<forall>j. pos \<le> j \<and> j < i \<longrightarrow> ids ! j \<noteq> 0"
    and lab: "labels inp i cur (ids[i := cur]) ids'"
    and stl: "\<forall>g < p_NSElements inp. ids' ! g = cur \<longrightarrow> settled inp i ids' (int g)"
    and con: "\<forall>g < p_NSElements inp. ids' ! g = cur \<longrightarrow> (patch_step inp ids')\<^sup>*\<^sup>* i g"
  shows "patches_inv inp (i + 1) (cur + 1) ids'"
proof -
  let ?N = "p_NSElements inp"
  from inv have len: "length ids = ?N" and cur1: "1 \<le> cur"
    and rng: "\<And>f. f < ?N \<Longrightarrow> 0 \<le> ids ! f \<and> ids ! f < cur"
    and below: "\<And>f. f < ?N \<Longrightarrow> f < pos \<Longrightarrow> 0 < ids ! f"
    and ex: "\<And>k. 1 \<le> k \<Longrightarrow> k < cur \<Longrightarrow> \<exists>f < ?N. ids ! f = k"
    and first: "(pos = 0 \<and> cur = 1) \<or> (0 < ?N \<and> ids ! 0 = 1)"
    and sd: "\<And>f. f < ?N \<Longrightarrow> 0 < ids ! f \<Longrightarrow> seeded inp ids f"
    and cl: "\<And>g. g < ?N \<Longrightarrow> 0 < ids ! g \<Longrightarrow> closed_patch inp ids g"
    by (auto simp: patches_inv_def)
  from lab len have len': "length ids' = ?N"
    and keep: "\<And>f. f < ?N \<Longrightarrow> 0 < ids[i := cur] ! f \<Longrightarrow> ids' ! f = ids[i := cur] ! f"
    and new: "\<And>f. f < ?N \<Longrightarrow> ids' ! f \<noteq> ids[i := cur] ! f \<Longrightarrow>
        ids' ! f = cur \<and> near_coplanar inp i (int f)
        \<and> (\<exists>g < ?N. ids' ! g = cur \<and> facet_neighbour inp (int g) (int f))"
    by (auto simp: labels_def)
  have A: "0 < ids ! f" if "f < i" for f
  proof (cases "f < pos")
    case True
    with below [of f] that i(2) show ?thesis by simp
  next
    case False
    with i(4) that have "ids ! f \<noteq> 0" by simp
    with rng [of f] that i(2) show ?thesis by simp
  qed
  have B: "ids' ! i = cur"
    using keep [of i] i(2) len cur1 by simp
  have C: "ids' ! f = ids ! f" if "f < ?N" "0 < ids ! f" for f
  proof -
    from that i(3) have "f \<noteq> i" by auto
    with keep [of f] that show ?thesis by simp
  qed
  have D: "ids' ! f = ids ! f \<and> f \<noteq> i" if "f < ?N" "ids' ! f \<noteq> cur" for f
  proof -
    from that B have ne: "f \<noteq> i" by auto
    with new [of f] that show ?thesis by auto
  qed
  have E: "i \<le> f \<and> (f = i \<or> (near_coplanar inp i (int f)
             \<and> (\<exists>g < ?N. ids' ! g = cur \<and> facet_neighbour inp (int g) (int f))))"
    if "f < ?N" "ids' ! f = cur" for f
  proof (cases "f = i")
    case True
    then show ?thesis by simp
  next
    case False
    have "\<not> f < i"
    proof
      assume "f < i"
      from C [OF that(1) A [OF this]] rng [OF that(1)] that(2) show False by simp
    qed
    moreover from False rng [OF that(1)] that(2) have "ids' ! f \<noteq> ids[i := cur] ! f"
      by simp
    from new [OF that(1) this] have "near_coplanar inp i (int f)
        \<and> (\<exists>g < ?N. ids' ! g = cur \<and> facet_neighbour inp (int g) (int f))"
      by simp
    ultimately show ?thesis by simp
  qed
  have R: "0 \<le> ids' ! f \<and> ids' ! f < cur + 1" if "f < ?N" for f
  proof (cases "ids' ! f = cur")
    case True
    with cur1 show ?thesis by simp
  next
    case False
    from D [OF that False] rng [OF that] show ?thesis by simp
  qed
  have G4: "0 < ids' ! f" if "f < ?N" "f < i + 1" for f
  proof (cases "f = i")
    case True
    with B cur1 show ?thesis by simp
  next
    case False
    with that have "f < i" by simp
    from C [OF that(1) A [OF this]] A [OF this] show ?thesis by simp
  qed
  have G5: "\<exists>f < ?N. ids' ! f = k" if "1 \<le> k" "k < cur + 1" for k
  proof (cases "k = cur")
    case True
    with B i(2) show ?thesis by blast
  next
    case False
    with that have "k < cur" by simp
    from ex [OF that(1) this] obtain f where f: "f < ?N" "ids ! f = k" by blast
    with C [of f] that(1) show ?thesis by auto
  qed
  have G6: "0 < ?N \<and> ids' ! 0 = 1"
  proof -
    from i(2) have N: "0 < ?N" by simp
    from first show ?thesis
    proof
      assume pc: "pos = 0 \<and> cur = 1"
      have "i = 0"
      proof (rule ccontr)
        assume "i \<noteq> 0"
        then have "0 < i" by simp
        from A [OF this] rng [OF N] pc show False by simp
      qed
      with B pc N show ?thesis by simp
    next
      assume "0 < ?N \<and> ids ! 0 = 1"
      with C [of 0] show ?thesis by simp
    qed
  qed
  have seed_i: "patch_seed ids' i"
    unfolding patch_seed_def
  proof (intro allI impI)
    fix h assume h: "h < i"
    show "ids' ! h \<noteq> ids' ! i"
    proof
      assume "ids' ! h = ids' ! i"
      with B have "ids' ! h = cur" by simp
      from E [OF _ this] h i(2) show False by simp
    qed
  qed
  have G7: "seeded inp ids' f" if f: "f < ?N" "0 < ids' ! f" for f
  proof (cases "ids' ! f = cur")
    case True
    from con f(1) True have "(patch_step inp ids')\<^sup>*\<^sup>* i f" by simp
    with E [OF f(1) True] seed_i B True show ?thesis
      unfolding seeded_def by (intro exI [of _ i]) auto
  next
    case False
    from D [OF f(1) False] have same: "ids' ! f = ids ! f" by simp
    with f sd [of f] obtain s where s: "s \<le> f" "patch_seed ids s" "ids ! s = ids ! f"
      "f = s \<or> near_coplanar inp s (int f)" "(patch_step inp ids)\<^sup>*\<^sup>* s f"
      unfolding seeded_def by auto
    from s(1) f(1) have sN: "s < ?N" by simp
    from C [OF sN] s(3) same f(2) have s': "ids' ! s = ids ! s" by simp
    have ps: "patch_seed ids' s"
      unfolding patch_seed_def
    proof (intro allI impI)
      fix h assume h: "h < s"
      show "ids' ! h \<noteq> ids' ! s"
      proof
        assume eq: "ids' ! h = ids' ! s"
        with s' s(3) same False have "ids' ! h \<noteq> cur" by simp
        from D [OF _ this] h sN have "ids' ! h = ids ! h" by simp
        with eq s' s(2) h show False by (auto simp: patch_seed_def)
      qed
    qed
    have "(patch_step inp ids')\<^sup>*\<^sup>* s f"
      using patch_reach_mono [OF _ _ s(5), of ids'] C len len' by simp
    with s(1) ps s' s(3) same s(4) show ?thesis
      unfolding seeded_def by (intro exI [of _ s]) auto
  qed
  have G8: "closed_patch inp ids' g" if g: "g < ?N" "0 < ids' ! g" for g
    unfolding closed_patch_def
  proof (intro allI impI)
    fix s k assume s: "s < length ids'" "patch_seed ids' s \<and> ids' ! s = ids' ! g"
      and k: "k < p_snloc inp"
    show "\<exists>f. read_int (p_EEList inp) (int g * int (p_snloc inp) + int k) = Inr f
            \<and> 0 \<le> f \<and> nat f < length ids'
            \<and> (near_coplanar inp s f \<longrightarrow> 0 < ids' ! nat f \<and> ids' ! nat f \<le> ids' ! g)"
    proof (cases "ids' ! g = cur")
      case True
      with s have sc: "ids' ! s = cur" by simp
      from E [OF _ sc] s(1) len' have "i \<le> s" by simp
      moreover have "\<not> i < s"
      proof
        assume "i < s"
        with s(2) have "ids' ! i \<noteq> ids' ! s" by (auto simp: patch_seed_def)
        with B sc show False by simp
      qed
      ultimately have si: "s = i" by simp
      from stl g(1) True have "settled inp i ids' (int g)" by simp
      with k obtain f where f: "read_int (p_EEList inp) (int g * int (p_snloc inp) + int k) = Inr f"
        "0 \<le> f" "nat f < length ids'" "ids' ! nat f > 0 \<or> \<not> near_coplanar inp i f"
        unfolding settled_def by blast
      from R [of "nat f"] f(3) len' have "ids' ! nat f \<le> cur" by simp
      with f si True show ?thesis by auto
    next
      case False
      from D [OF g(1) False] have gs: "ids' ! g = ids ! g" by simp
      from s False have "ids' ! s \<noteq> cur" by simp
      from D [OF _ this] s(1) len' have ss: "ids' ! s = ids ! s" by simp
      have ps: "patch_seed ids s"
        unfolding patch_seed_def
      proof (intro allI impI)
        fix h assume h: "h < s"
        show "ids ! h \<noteq> ids ! s"
        proof
          assume eq: "ids ! h = ids ! s"
          with ss s(2) gs g(2) have "0 < ids ! h" by simp
          from C [OF _ this] h s(1) len' have "ids' ! h = ids ! h" by simp
          with eq ss s(2) h show False by (auto simp: patch_seed_def)
        qed
      qed
      from cl [OF g(1)] g(2) gs have "closed_patch inp ids g" by simp
      with ps ss s gs len len' k obtain f where
        f: "read_int (p_EEList inp) (int g * int (p_snloc inp) + int k) = Inr f"
        "0 \<le> f" "nat f < length ids"
        "near_coplanar inp s f \<longrightarrow> 0 < ids ! nat f \<and> ids ! nat f \<le> ids ! g"
        unfolding closed_patch_def by (metis (no_types, lifting))
      have "0 < ids' ! nat f \<and> ids' ! nat f \<le> ids' ! g" if "near_coplanar inp s f"
      proof -
        from f(4) that have p: "0 < ids ! nat f" "ids ! nat f \<le> ids ! g" by simp_all
        from C [OF _ p(1)] f(3) len have "ids' ! nat f = ids ! nat f" by simp
        with p gs show ?thesis by simp
      qed
      with f len len' show ?thesis by auto
    qed
  qed
  show ?thesis
    unfolding patches_inv_def
    using len' cur1 R G4 G5 G6 G7 G8 by (intro conjI allI impI) auto
qed

lemma form_patches_loop_correct:
  "patches_inv inp pos cur ids \<Longrightarrow>
     \<exists>r. form_patches_loop inp pos cur ids = Some r
       \<and> (\<forall>ids'. r = Inr ids' \<longrightarrow> patches_ok inp ids')"
proof (induction inp pos cur ids rule: form_patches_loop.induct)
  case (1 inp pos cur ids)
  note inv = "1.prems"
  let ?N = "p_NSElements inp"
  from inv have len: "length ids = ?N" and cur1: "1 \<le> cur"
    and rng: "\<And>f. f < ?N \<Longrightarrow> 0 \<le> ids ! f \<and> ids ! f < cur"
    and below: "\<And>f. f < ?N \<Longrightarrow> f < pos \<Longrightarrow> 0 < ids ! f"
    by (auto simp: patches_inv_def)
  show ?case
  proof (cases "pos < ?N")
    case False
    with below have "\<forall>f < ?N. 0 < ids ! f" by simp
    from patches_inv_final [OF inv this] False show ?thesis
      by (subst form_patches_loop.simps) simp
  next
    case True
    show ?thesis
    proof (cases "find (\<lambda>i. ids ! i = 0) [pos..<?N]")
      case None
      have "\<forall>f < ?N. 0 < ids ! f"
      proof (intro allI impI)
        fix f assume f: "f < ?N"
        show "0 < ids ! f"
        proof (cases "f < pos")
          case True
          with below f show ?thesis by simp
        next
          case False
          with None f have "ids ! f \<noteq> 0" by (auto simp: find_None_iff)
          with rng [OF f] show ?thesis by simp
        qed
      qed
      from patches_inv_final [OF inv this] True None show ?thesis
        by (subst form_patches_loop.simps) simp
    next
      case (Some i)
      from find_upt_Some [OF Some] have i: "pos \<le> i" "i < ?N" "ids ! i = 0"
        "\<forall>j. pos \<le> j \<and> j < i \<longrightarrow> ids ! j \<noteq> 0"
        by simp_all
      from cur1 have cur: "cur > 0" by simp
      have p1: "\<forall>x \<in> set [int i]. 0 \<le> x \<and> nat x < length (ids[i := cur])
                  \<and> ids[i := cur] ! nat x = cur"
        using i(2) len by simp
      have p2: "\<forall>g < length (ids[i := cur]). ids[i := cur] ! g = cur \<and> int g \<notin> set [int i]
                  \<longrightarrow> settled inp i (ids[i := cur]) (int g)"
      proof (intro allI impI)
        fix g assume g: "g < length (ids[i := cur])"
          and gc: "ids[i := cur] ! g = cur \<and> int g \<notin> set [int i]"
        from gc have "g \<noteq> i" by simp
        with gc have "ids ! g = cur" by simp
        with rng [of g] g len show "settled inp i (ids[i := cur]) (int g)" by simp
      qed
      have p3: "\<forall>g < length (ids[i := cur]). ids[i := cur] ! g = cur
                  \<longrightarrow> (patch_step inp (ids[i := cur]))\<^sup>*\<^sup>* i g"
      proof (intro allI impI)
        fix g assume g: "g < length (ids[i := cur])" and gc: "ids[i := cur] ! g = cur"
        have "g = i"
        proof (rule ccontr)
          assume "g \<noteq> i"
          with gc have "ids ! g = cur" by simp
          with rng [of g] g len show False by simp
        qed
        then show "(patch_step inp (ids[i := cur]))\<^sup>*\<^sup>* i g" by simp
      qed
      from advance_front_total [OF cur p1 p2 p3] obtain r where
        r: "advance_front inp i cur [int i] (ids[i := cur]) = Some r"
        and post: "\<forall>ids'. r = Inr ids' \<longrightarrow> labels inp i cur (ids[i := cur]) ids'
             \<and> (\<forall>g < length (ids[i := cur]). ids' ! g = cur \<longrightarrow> settled inp i ids' (int g))
             \<and> (\<forall>g < length (ids[i := cur]). ids' ! g = cur
                   \<longrightarrow> (patch_step inp ids')\<^sup>*\<^sup>* i g)"
        by blast
      show ?thesis
      proof (cases r)
        case (Inl e)
        with True Some r show ?thesis
          by (subst form_patches_loop.simps) simp
      next
        case (Inr ids')
        with post len have lab: "labels inp i cur (ids[i := cur]) ids'"
          and stl: "\<forall>g < ?N. ids' ! g = cur \<longrightarrow> settled inp i ids' (int g)"
          and con: "\<forall>g < ?N. ids' ! g = cur \<longrightarrow> (patch_step inp ids')\<^sup>*\<^sup>* i g"
          by simp_all
        from patches_inv_step [OF inv i lab stl con]
        have "patches_inv inp (i + 1) (cur + 1) ids'" .
        from "1.IH" [OF True Some r Inr this] True Some r Inr show ?thesis
          by (subst form_patches_loop.simps) simp
      qed
    qed
  qed
qed

lemma patches_inv_initial:
  "patches_inv inp 0 1 (replicate (p_NSElements inp) 0)"
  by (simp add: patches_inv_def)

lemma form_patches_correct:
  "\<exists>r. form_patches inp = Some r \<and> (\<forall>ids. r = Inr ids \<longrightarrow> patches_ok inp ids)"
  unfolding form_patches_def
  by (rule form_patches_loop_correct [OF patches_inv_initial])

text \<open>The classification of the hexagon, step by step.\<close>

lemma normal_2d_slanted:
  assumes "y1 - y0 > 0" and "x0 - x1 > 0" and r: "(x1 - x0) / (y1 - y0) = - s"
    and "0 \<le> s" and "0 \<le> c" and cs: "c\<^sup>2 + s\<^sup>2 = 1"
  shows "normal_2d x0 y0 x1 y1 = (- c, - s)"
proof -
  from cs have "1 - ((x1 - x0) / (y1 - y0))\<^sup>2 = c\<^sup>2" and "1 - c\<^sup>2 = s\<^sup>2"
    unfolding r by simp_all
  with assms(4,5) have n0: "sqrt (1 - ((x1 - x0) / (y1 - y0))\<^sup>2) = c"
    and n1: "sqrt (1 - c\<^sup>2) = s"
    and nn: "\<not> 1 - ((x1 - x0) / (y1 - y0))\<^sup>2 < 0"
    by simp_all
  from assms(1) have "y1 - y0 \<noteq> 0" by simp
  with assms(1,2) nn show ?thesis
    by (simp add: normal_2d_def Let_def n0 n1)
qed

lemma normal_2d_facet2:
  "normal_2d 0 1 (- 10000) 25000002 = (- (24999999 / 25000001), - (10000 / 25000001))"
  by (rule normal_2d_slanted) (simp_all add: power2_eq_square)

lemma normal_2d_facet3:
  "normal_2d (- 10000) 25000002 (- 15000) 31250003
     = (- (6249999 / 6250001), - (5000 / 6250001))"
  by (rule normal_2d_slanted) (simp_all add: power2_eq_square)

lemma upt_6: "[0..<6] = [0, 1, 2, 3, 4, 5]"
  by (simp add: upt_rec)

lemma hexagon_normals:
  "calculate_normals 2 hexagon_coords hexagon_SENList 6 = Inr (p_normals hexagon_input)"
  by (simp add: calculate_normals_def upt_6 hexagon_coords_def hexagon_SENList_def
      hexagon_input_def read_at_def read_int_def get_x_def get_y_def
      normal_2d_facet2 normal_2d_facet3)
     (simp add: normal_2d_def)


lemma upt_12: "[0..<12] = [0, 1, 2, 3, 4, 5, 6, 7, 8, 9, 10, 11]"
  by (simp add: upt_rec)

lemma hexagon_EEList:
  "\<exists>snel. create_SNEList 2 hexagon_SENList [0..<6 * 2] (\<lambda>nid. []) = Inr snel
     \<and> create_EEList 2 hexagon_SENList snel [0..<6 * 2] = Inr (p_EEList hexagon_input)"
  by (simp add: upt_12 hexagon_SENList_def hexagon_input_def read_at_def
      neighbour_2d_def Let_def)

lemma hexagon_flood_0:
  "advance_front hexagon_input 0 1 [0] [1, 0, 0, 0, 0, 0] = Some (Inr [1, 0, 1, 0, 0, 0])"
  by (simp add: advance_front.simps hexagon_input_def upt_2 read_at_def read_int_def
      list_update_numeral)

lemma hexagon_flood_1:
  "advance_front hexagon_input 1 2 [1] [1, 2, 1, 0, 0, 0] = Some (Inr [1, 2, 1, 0, 0, 0])"
  by (simp add: advance_front.simps hexagon_input_def upt_2 read_at_def read_int_def
      list_update_numeral)

lemma hexagon_flood_3:
  "advance_front hexagon_input 3 3 [3] [1, 2, 1, 3, 0, 0] = Some (Inr [1, 2, 1, 3, 0, 0])"
  by (simp add: advance_front.simps hexagon_input_def upt_2 read_at_def read_int_def
      list_update_numeral)

lemma hexagon_flood_4:
  "advance_front hexagon_input 4 4 [4] [1, 2, 1, 3, 4, 0] = Some (Inr [1, 2, 1, 3, 4, 0])"
  by (simp add: advance_front.simps hexagon_input_def upt_2 read_at_def read_int_def
      list_update_numeral)

lemma hexagon_flood_5:
  "advance_front hexagon_input 5 5 [5] [1, 2, 1, 3, 4, 5] = Some (Inr [1, 2, 1, 3, 4, 5])"
  by (simp add: advance_front.simps hexagon_input_def upt_2 read_at_def read_int_def
      list_update_numeral)


lemma hexagon_fields:
  "p_NSElements hexagon_input = 6" "p_snloc hexagon_input = 2" "p_ndims hexagon_input = 2"
  by (simp_all add: hexagon_input_def)

lemma form_patches_loop_step:
  assumes "pos < p_NSElements inp"
    and "find (\<lambda>i. ids ! i = 0) [pos..<p_NSElements inp] = Some i"
    and "advance_front inp i cur [int i] (ids[i := cur]) = Some (Inr ids')"
    and "form_patches_loop inp (i + 1) (cur + 1) ids' = r"
  shows "form_patches_loop inp pos cur ids = r"
  using assms by (subst form_patches_loop.simps) (simp del: form_patches_loop.simps)

lemma hexagon_patches:
  "form_patches hexagon_input = Some (Inr [1, 2, 1, 3, 4, 5])"
proof -
  have s5: "form_patches_loop hexagon_input 6 6 [1, 2, 1, 3, 4, 5]
      = Some (Inr [1, 2, 1, 3, 4, 5])"
    by (subst form_patches_loop.simps) (simp add: hexagon_fields)
  have s4: "form_patches_loop hexagon_input 5 5 [1, 2, 1, 3, 4, 0]
      = Some (Inr [1, 2, 1, 3, 4, 5])"
    by (rule form_patches_loop_step [where i = 5 and ids' = "[1, 2, 1, 3, 4, 5]"])
       (use hexagon_flood_5 s5 in
         \<open>simp_all add: hexagon_fields upt_rec list_update_numeral
            del: form_patches_loop.simps\<close>)
  have s3: "form_patches_loop hexagon_input 4 4 [1, 2, 1, 3, 0, 0]
      = Some (Inr [1, 2, 1, 3, 4, 5])"
    by (rule form_patches_loop_step [where i = 4 and ids' = "[1, 2, 1, 3, 4, 0]"])
       (use hexagon_flood_4 s4 in
         \<open>simp_all add: hexagon_fields upt_rec list_update_numeral
            del: form_patches_loop.simps\<close>)
  have s2: "form_patches_loop hexagon_input 2 3 [1, 2, 1, 0, 0, 0]
      = Some (Inr [1, 2, 1, 3, 4, 5])"
    by (rule form_patches_loop_step [where i = 3 and ids' = "[1, 2, 1, 3, 0, 0]"])
       (use hexagon_flood_3 s3 in
         \<open>simp_all add: hexagon_fields upt_rec list_update_numeral
            del: form_patches_loop.simps\<close>)
  have s1: "form_patches_loop hexagon_input 1 2 [1, 0, 1, 0, 0, 0]
      = Some (Inr [1, 2, 1, 3, 4, 5])"
    by (rule form_patches_loop_step [where i = 1 and ids' = "[1, 2, 1, 0, 0, 0]"])
       (use hexagon_flood_1 s2 in
         \<open>simp_all add: hexagon_fields upt_rec list_update_numeral
            numeral_2_eq_2 [symmetric]
            del: form_patches_loop.simps\<close>)
  show ?thesis
    unfolding form_patches_def
    by (rule form_patches_loop_step [where i = 0 and ids' = "[1, 0, 1, 0, 0, 0]"])
       (use hexagon_flood_0 s1 in
         \<open>simp_all add: hexagon_fields upt_rec list_update_numeral
            numeral_eq_Suc
            del: form_patches_loop.simps\<close>)
qed

lemma hexagon_coplanar_ids:
  "calculate_coplanar_ids 2 hexagon_coords hexagon_SENList 6 (9999999 / 10000000)
     = Some (Inr [1, 2, 1, 3, 4, 5])"
proof -
  from hexagon_EEList obtain snel where
    s: "create_SNEList 2 hexagon_SENList [0..<6 * 2] (\<lambda>nid. []) = Inr snel"
    and e: "create_EEList 2 hexagon_SENList snel [0..<6 * 2] = Inr (p_EEList hexagon_input)"
    by blast
  have "\<lparr>p_ndims = 2, p_snloc = 2, p_NSElements = 6, p_normals = p_normals hexagon_input,
         p_EEList = p_EEList hexagon_input, p_COPLANAR_MAGIC_NUMBER = 9999999 / 10000000\<rparr>
        = hexagon_input"
    by (simp add: hexagon_input_def)
  with s e hexagon_normals hexagon_patches show ?thesis
    by (simp add: calculate_coplanar_ids_def)
qed

lemma hexagon_current_facet:
  "facet_neighbour hexagon_input 2 3"
  "near_coplanar hexagon_input 2 3"
  "\<not> near_coplanar hexagon_input 0 3"
  "check_surrounding hexagon_input 0 1 2 [0..<2] ([], [1, 0, 1, 0, 0, 0])
     = Inr ([], [1, 0, 1, 0, 0, 0])"
  by (simp_all add: facet_neighbour_def near_coplanar_def hexagon_input_def upt_2
      read_at_def read_int_def list_update_numeral)

subsection \<open>Coplanar patches\<close>

text \<open>
  C7, as the code has it. The flood fill holds on to the normal of the seed of the
  patch, the lowest-index facet without a patch id, which gets the current id. When
  it visits a neighbour \<open>f\<close> of the current facet \<open>sele\<close> whose id is still \<open>0\<close>, it
  gives \<open>f\<close> the current id and puts it into the front exactly when the scalar product
  of the normal of the seed \<open>pos\<close> (not of \<open>sele\<close>) with the normal of \<open>f\<close> is at least
  the tolerance. The classification always returns, and when no read fails every
  facet has a patch id, the ids are \<open>1, 2, \<dots>\<close> without gaps with facet \<open>0\<close> in patch \<open>1\<close>,
  every facet is its patch's seed or near-coplanar with it and is reached from the
  seed through neighbouring facets of the patch, and a neighbour of a facet of a patch
  that is near-coplanar with the seed of that patch lies in that patch or in an earlier
  one.
\<close>

theorem form_patches_seed_coplanar:
  "(read_int (p_EEList inp) (sele * int (p_snloc inp) + int i) = Inr f
      \<and> read_int ids f = Inr 0
      \<and> check_surrounding inp pos cur sele [i] (front, ids) = Inr st'
    \<longrightarrow> st' = (if near_coplanar inp pos f
                then (set_insert f front, ids[nat f := cur]) else (front, ids)))
   \<and> (\<exists>r. form_patches inp = Some r \<and> (\<forall>ids'. r = Inr ids' \<longrightarrow> patches_ok inp ids'))"
  using check_surrounding_one [of inp sele i f ids pos cur front st']
    form_patches_correct [of inp]
  by blast

theorem form_patches_seed_coplanar_witness:
  "read_int (p_EEList hexagon_input) (0 * int (p_snloc hexagon_input) + int 1) = Inr 2
   \<and> read_int [1, 0, 0, 0, 0, 0] 2 = Inr (0::int)
   \<and> check_surrounding hexagon_input 0 1 0 [1] ([], [1, 0, 0, 0, 0, 0])
       = Inr ([2], [1, 0, 1, 0, 0, 0])
   \<and> near_coplanar hexagon_input 0 2
   \<and> form_patches hexagon_input = Some (Inr [1, 2, 1, 3, 4, 5])
   \<and> patches_ok hexagon_input [1, 2, 1, 3, 4, 5]"
proof -
  have a: "read_int (p_EEList hexagon_input) (0 * int (p_snloc hexagon_input) + int 1) = Inr 2"
    by (simp add: hexagon_input_def read_int_def)
  have b: "read_int [1, 0, 0, 0, 0, 0] 2 = Inr (0::int)"
    by (simp add: read_int_def)
  have c: "check_surrounding hexagon_input 0 1 0 [1] ([], [1, 0, 0, 0, 0, 0])
       = Inr ([2], [1, 0, 1, 0, 0, 0])"
    by (simp add: hexagon_input_def upt_2 read_at_def read_int_def list_update_numeral)
  from form_patches_seed_coplanar [where inp = hexagon_input and sele = 0 and i = 1
      and f = 2 and ids = "[1, 0, 0, 0, 0, 0]" and pos = 0 and cur = 1 and front = "[]"
      and st' = "([2], [1, 0, 1, 0, 0, 0])"] a b c
  have d: "([2::int], [1::int, 0, 1, 0, 0, 0])
      = (if near_coplanar hexagon_input 0 2
         then (set_insert 2 [], [1, 0, 0, 0, 0, 0][nat 2 := 1])
         else ([], [1, 0, 0, 0, 0, 0]))"
    and e: "\<exists>r. form_patches hexagon_input = Some r
          \<and> (\<forall>ids'. r = Inr ids' \<longrightarrow> patches_ok hexagon_input ids')"
    by blast+
  from d have "near_coplanar hexagon_input 0 2"
    by (simp split: if_splits)
  moreover from e hexagon_patches have "patches_ok hexagon_input [1, 2, 1, 3, 4, 5]"
    by simp
  ultimately show ?thesis
    using a b c hexagon_patches by simp
qed

text \<open>
  C7 as the specification has it compares the normal of the current facet with the
  normal of the neighbour. On the hexagon, with the default tolerance, facet 3 is a
  neighbour of facet 2, its id is still \<open>0\<close> when facet 2 is the current facet of patch
  \<open>1\<close>, and the scalar product of the normals of the facets 2 and 3 is at least the
  tolerance; the code compares with the normal of the seed, facet 0, leaves facet 3
  alone, and facet 3 ends in a patch of its own.
\<close>

theorem flood_fill_current_facet_counterexample:
  "calculate_coplanar_ids 2 hexagon_coords hexagon_SENList 6 (9999999 / 10000000)
     = Some (Inr [1, 2, 1, 3, 4, 5])
   \<and> calculate_normals 2 hexagon_coords hexagon_SENList 6 = Inr (p_normals hexagon_input)
   \<and> (\<exists>snel. create_SNEList 2 hexagon_SENList [0..<6 * 2] (\<lambda>nid. []) = Inr snel
         \<and> create_EEList 2 hexagon_SENList snel [0..<6 * 2] = Inr (p_EEList hexagon_input))
   \<and> facet_neighbour hexagon_input 2 3
   \<and> near_coplanar hexagon_input 2 3
   \<and> \<not> near_coplanar hexagon_input 0 3
   \<and> check_surrounding hexagon_input 0 1 2 [0..<2] ([], [1, 0, 1, 0, 0, 0])
       = Inr ([], [1, 0, 1, 0, 0, 0])"
  using hexagon_coplanar_ids hexagon_normals hexagon_EEList hexagon_current_facet
  by blast

subsection \<open>Two-dimensional normals\<close>

text \<open>
  C8 says that the stored normal of every two-dimensional facet is the unit
  perpendicular of its edge. Evaluated on the facet from \<open>(0, 0)\<close> to \<open>(1, 1)\<close>, the
  code stores \<open>(0, 1)\<close> (the first component is \<open>-0.0\<close> in the code), whose scalar
  product with the edge vector \<open>(1, 1)\<close> is \<open>1\<close>, not \<open>0\<close>: the stored vector is not
  perpendicular to the edge.
\<close>

theorem calculate_normals_diagonal_edge:
  "calculate_normals 2 [0, 0, 1, 1] [0, 1] 1 = Inr [0, 1]
   \<and> (0::real) * (1 - 0) + 1 * (1 - 0) \<noteq> 0"
  by (simp add: calculate_normals_def read_at_def read_int_def get_x_def get_y_def
      normal_2d_def Let_def)

section \<open>Properties of the collapse identification\<close>

lemma Edges_find_Some:
  "Edges_find es a b = Some e \<Longrightarrow> edge_first e = min a b \<and> edge_second e = max a b"
  by (auto simp: Edges_find_def find_Some_iff)

lemma collapse_target_found:
  "Edges_find es v nn = Some e \<Longrightarrow> collapse_target v e = nn"
  by (drule Edges_find_Some) (auto simp: collapse_target_def min_def max_def split: if_splits)

lemma set_multimap_insert [simp]: "set (multimap_insert x xs) = insert x (set xs)"
  by (induction xs) auto

lemma sorted_multimap_insert:
  "sorted (map fst xs) \<Longrightarrow> sorted (map fst (multimap_insert x xs))"
  by (induction xs) auto

lemma short_edges_loop_sound:
  "short_edges_loop surf m v L_low nns acc = Inr se \<Longrightarrow>
   (sorted (map fst acc) \<longrightarrow> sorted (map fst se))
   \<and> (\<forall>c \<in> set se. c \<in> set acc \<or> (\<exists>nn \<in> set nns. candidate surf m v L_low nn c))"
proof (induction nns arbitrary: acc)
  case Nil
  then show ?case by simp
next
  case (Cons nn nns)
  show ?case
  proof (cases "set_count (recv_halo m) nn \<noteq> 0")
    case True
    with Cons.prems have "short_edges_loop surf m v L_low nns acc = Inr se" by simp
    from Cons.IH [OF this] show ?thesis by auto
  next
    case halo: False
    with Cons.prems obtain collapsible where c: "is_collapsible surf v nn = Inr collapsible"
      by (auto simp: ebind_eq_Inr)
    show ?thesis
    proof (cases collapsible)
      case False
      with Cons.prems halo c have "short_edges_loop surf m v L_low nns acc = Inr se" by simp
      from Cons.IH [OF this] show ?thesis by auto
    next
      case True
      with Cons.prems halo c obtain edge where e: "Edges_find (Edges m) v nn = Some edge"
        by (auto split: option.splits)
      show ?thesis
      proof (cases "length_e edge < L_low")
        case False
        with Cons.prems halo c True e
        have "short_edges_loop surf m v L_low nns acc = Inr se" by simp
        from Cons.IH [OF this] show ?thesis by auto
      next
        case short: True
        with Cons.prems halo c True e
        have "short_edges_loop surf m v L_low nns (multimap_insert (length_e edge, edge) acc)
                = Inr se" by simp
        from Cons.IH [OF this]
        have s: "sorted (map fst (multimap_insert (length_e edge, edge) acc))
                  \<longrightarrow> sorted (map fst se)"
          and mem: "\<forall>c \<in> set se. c \<in> set (multimap_insert (length_e edge, edge) acc)
                  \<or> (\<exists>nn \<in> set nns. candidate surf m v L_low nn c)"
          by simp_all
        have "candidate surf m v L_low nn (length_e edge, edge)"
          using halo c True e short by (simp add: candidate_def)
        with mem have "\<forall>c \<in> set se. c \<in> set acc
                  \<or> (\<exists>nn \<in> set (nn # nns). candidate surf m v L_low nn c)"
          by auto
        with s sorted_multimap_insert show ?thesis by blast
      qed
    qed
  qed
qed

lemma try_edges_result:
  "try_edges pr cel m v L_max nel nnl se (rc0, tv0) = Inr (rc, tv) \<Longrightarrow>
     (se = [] \<and> rc = rc0 \<and> tv = tv0)
   \<or> (rc \<and> se \<noteq> [] \<and> (\<forall>c \<in> set se. passes pr cel m v L_max nel nnl c = Inr False))
   \<or> (\<not> rc \<and> (\<exists>pre c post. se = pre @ c # post \<and> tv = collapse_target v (snd c)
          \<and> passes pr cel m v L_max nel nnl c = Inr True
          \<and> (\<forall>c' \<in> set pre. passes pr cel m v L_max nel nnl c' = Inr False)))"
proof (induction se arbitrary: rc0 tv0)
  case Nil
  then show ?case by simp
next
  case (Cons c se)
  let ?tv = "collapse_target v (snd c)"
  from Cons.prems obtain r1 where vc: "volume_check pr m v (snd c) ?tv nel = Inr r1"
    by (auto simp: ebind_eq_Inr Let_def collapse_target_def)
  let ?r2 = "length_check cel L_max ?tv nnl r1"
  have p: "passes pr cel m v L_max nel nnl c = Inr (\<not> ?r2)"
    by (simp add: passes_def vc)
  show ?case
  proof (cases ?r2)
    case False
    with Cons.prems vc have "rc = False" "tv = ?tv"
      by (simp_all add: Let_def collapse_target_def)
    with p False have "\<not> rc \<and> (\<exists>pre c' post. c # se = pre @ c' # post
          \<and> tv = collapse_target v (snd c')
          \<and> passes pr cel m v L_max nel nnl c' = Inr True
          \<and> (\<forall>c'' \<in> set pre. passes pr cel m v L_max nel nnl c'' = Inr False))"
      by (intro conjI exI [of _ "[]"] exI [of _ c] exI [of _ se]) simp_all
    then show ?thesis by blast
  next
    case True
    with Cons.prems vc have rest: "try_edges pr cel m v L_max nel nnl se (True, ?tv) = Inr (rc, tv)"
      by (simp add: Let_def collapse_target_def)
    from Cons.IH [OF rest] consider
        (empty) "se = []" "rc = True" "tv = ?tv"
      | (all) "rc" "se \<noteq> []" "\<forall>c \<in> set se. passes pr cel m v L_max nel nnl c = Inr False"
      | (found) pre c' post where "\<not> rc" "se = pre @ c' # post" "tv = collapse_target v (snd c')"
          "passes pr cel m v L_max nel nnl c' = Inr True"
          "\<forall>c'' \<in> set pre. passes pr cel m v L_max nel nnl c'' = Inr False"
      by blast
    then show ?thesis
    proof cases
      case empty
      with p True show ?thesis by simp
    next
      case all
      with p True show ?thesis by simp
    next
      case found
      with p True have "c # se = (c # pre) @ c' # post"
        "\<forall>c'' \<in> set (c # pre). passes pr cel m v L_max nel nnl c'' = Inr False"
        by simp_all
      with found(1,3,4) show ?thesis by blast
    qed
  qed
qed


lemma length_check_True [simp]: "length_check cel L_max tv nnl True"
  by (induction nnl) auto

lemma volume_check_False:
  "volume_check pr m v te tv ees = Inr False \<Longrightarrow> ee \<in> set ees \<Longrightarrow>
   set_count (adjacent_elements te) ee = 0 \<Longrightarrow>
   \<exists>n ov nv. get_element m (if number_dimensions m = 2 then 3 else 4) ee = Inr n
     \<and> element_volume pr m (number_dimensions m) n = Inr ov
     \<and> element_volume pr m (number_dimensions m) (substitute v tv n) = Inr nv
     \<and> ov \<noteq> 0 \<and> \<not> nv / ov \<le> 1 / 1000"
proof (induction ees)
  case Nil
  then show ?case by simp
next
  case (Cons a ees)
  show ?case
  proof (cases "set_count (adjacent_elements te) a \<noteq> 0")
    case True
    with Cons.prems have "volume_check pr m v te tv ees = Inr False" "ee \<in> set ees"
      by auto
    with Cons.IH Cons.prems(3) show ?thesis by blast
  next
    case False
    with Cons.prems(1) obtain n ov nv where
      n: "get_element m (if number_dimensions m = 2 then 3 else 4) a = Inr n"
      and ov: "element_volume pr m (number_dimensions m) n = Inr ov"
      and nv: "element_volume pr m (number_dimensions m) (substitute v tv n) = Inr nv"
      and rest: "(if ov = 0 then Inl NonFinite
                  else if nv / ov \<le> 0.001 then Inr True
                  else volume_check pr m v te tv ees) = Inr False"
      by (auto simp: ebind_eq_Inr Let_def)
    from rest have ok: "ov \<noteq> 0" "\<not> nv / ov \<le> 1 / 1000"
      and tl: "volume_check pr m v te tv ees = Inr False"
      by (auto split: if_splits)
    show ?thesis
    proof (cases "ee = a")
      case True
      with n ov nv ok show ?thesis by blast
    next
      case False
      with Cons.prems(2) have "ee \<in> set ees" by simp
      from Cons.IH [OF tl this Cons.prems(3)] show ?thesis .
    qed
  qed
qed

lemma passes_True:
  "passes pr cel m v L_max nel nnl c = Inr True \<Longrightarrow>
   volume_check pr m v (snd c) (collapse_target v (snd c)) nel = Inr False"
  by (cases "volume_check pr m v (snd c) (collapse_target v (snd c)) nel")
     (auto simp: passes_def ebind_eq_Inr)

text \<open>Every candidate neighbour gets its entry, and there are no other entries.\<close>

lemma length_multimap_insert [simp]: "length (multimap_insert x xs) = Suc (length xs)"
  by (induction xs) auto

lemma short_edges_loop_complete:
  "short_edges_loop surf m v L_low nns acc = Inr se \<Longrightarrow>
   set acc \<subseteq> set se
   \<and> length se = length acc + length (filter (candidate_neighbour surf m v L_low) nns)
   \<and> (\<forall>nn \<in> set nns. candidate_neighbour surf m v L_low nn \<longrightarrow>
         (\<exists>c \<in> set se. candidate surf m v L_low nn c))"
proof (induction nns arbitrary: acc)
  case Nil
  then show ?case by simp
next
  case (Cons nn nns)
  show ?case
  proof (cases "set_count (recv_halo m) nn \<noteq> 0")
    case True
    with Cons.prems have "short_edges_loop surf m v L_low nns acc = Inr se" by simp
    from Cons.IH [OF this] True show ?thesis
      by (auto simp: candidate_neighbour_def)
  next
    case halo: False
    with Cons.prems obtain collapsible where c: "is_collapsible surf v nn = Inr collapsible"
      by (auto simp: ebind_eq_Inr)
    show ?thesis
    proof (cases collapsible)
      case False
      with Cons.prems halo c have "short_edges_loop surf m v L_low nns acc = Inr se" by simp
      from Cons.IH [OF this] False c show ?thesis
        by (auto simp: candidate_neighbour_def)
    next
      case True
      with Cons.prems halo c obtain edge where e: "Edges_find (Edges m) v nn = Some edge"
        by (auto split: option.splits)
      show ?thesis
      proof (cases "length_e edge < L_low")
        case False
        with Cons.prems halo c True e
        have "short_edges_loop surf m v L_low nns acc = Inr se" by simp
        from Cons.IH [OF this] False e show ?thesis
          by (auto simp: candidate_neighbour_def)
      next
        case short: True
        with Cons.prems halo c True e
        have "short_edges_loop surf m v L_low nns (multimap_insert (length_e edge, edge) acc)
                = Inr se" by simp
        from Cons.IH [OF this]
        have 1: "insert (length_e edge, edge) (set acc) \<subseteq> set se"
          and 2: "length se = Suc (length acc)
                    + length (filter (candidate_neighbour surf m v L_low) nns)"
          and 3: "\<forall>nn \<in> set nns. candidate_neighbour surf m v L_low nn \<longrightarrow>
                    (\<exists>c \<in> set se. candidate surf m v L_low nn c)"
          by simp_all
        have cn: "candidate_neighbour surf m v L_low nn"
          using halo c True e short by (simp add: candidate_neighbour_def)
        have "candidate surf m v L_low nn (length_e edge, edge)"
          using halo c True e short by (simp add: candidate_def)
        with 1 have "\<exists>c \<in> set se. candidate surf m v L_low nn c" by blast
        with 1 2 3 cn show ?thesis by auto
      qed
    qed
  qed
qed

lemma coarsen_identify_kernel_result:
  assumes "coarsen_identify_kernel pr cel surf m v L_low L_max = Inr w"
  shows "w = - 2 \<or> w = - 3 \<or>
     (\<exists>nnl nel se. read_int (NNList m) v = Inr nnl \<and> read_int (NEList m) v = Inr nel
        \<and> short_edges_loop surf m v L_low nnl [] = Inr se
        \<and> sorted (map fst se)
        \<and> (\<forall>c \<in> set se. \<exists>nn \<in> set nnl. candidate surf m v L_low nn c
                \<and> collapse_target v (snd c) = nn)
        \<and> ((se = [] \<and> w = - 1)
           \<or> (se \<noteq> [] \<and> w = - 4
               \<and> (\<forall>c \<in> set se. passes pr cel m v L_max nel nnl c = Inr False))
           \<or> (\<exists>pre c post. se = pre @ c # post \<and> w = collapse_target v (snd c)
               \<and> passes pr cel m v L_max nel nnl c = Inr True
               \<and> (\<forall>c' \<in> set pre. passes pr cel m v L_max nel nnl c' = Inr False))))"
proof -
  from assms obtain corner where corner: "is_corner_vertex surf v = Inr corner"
    by (auto simp: coarsen_identify_kernel_def ebind_eq_Inr)
  show ?thesis
  proof (cases "corner \<or> \<not> is_owned_node m v")
    case True
    with assms corner have "w = - 2 \<or> w = - 3"
      by (cases corner) (simp_all add: coarsen_identify_kernel_def)
    then show ?thesis by blast
  next
    case False
    with assms corner obtain nnl nel se rc tv where
      nnl: "read_int (NNList m) v = Inr nnl" and nel: "read_int (NEList m) v = Inr nel"
      and se: "short_edges_loop surf m v L_low nnl [] = Inr se"
      and te: "try_edges pr cel m v L_max nel nnl se (False, - 1) = Inr (rc, tv)"
      and w: "w = (if rc then - 4 else tv)"
      by (auto simp: coarsen_identify_kernel_def ebind_eq_Inr split: if_splits)
    from short_edges_loop_sound [OF se] have sorted: "sorted (map fst se)"
      and cand: "\<forall>c \<in> set se. \<exists>nn \<in> set nnl. candidate surf m v L_low nn c"
      by simp_all
    have cand': "\<forall>c \<in> set se. \<exists>nn \<in> set nnl. candidate surf m v L_low nn c
                \<and> collapse_target v (snd c) = nn"
    proof
      fix c assume "c \<in> set se"
      with cand obtain nn where nn: "nn \<in> set nnl" "candidate surf m v L_low nn c"
        by blast
      then have "collapse_target v (snd c) = nn"
        by (auto simp: candidate_def dest: collapse_target_found)
      with nn show "\<exists>nn \<in> set nnl. candidate surf m v L_low nn c
                \<and> collapse_target v (snd c) = nn"
        by blast
    qed
    from try_edges_result [OF te] consider
        (empty) "se = []" "rc = False" "tv = - 1"
      | (all) "rc" "se \<noteq> []" "\<forall>c \<in> set se. passes pr cel m v L_max nel nnl c = Inr False"
      | (found) pre c post where "\<not> rc" "se = pre @ c # post" "tv = collapse_target v (snd c)"
          "passes pr cel m v L_max nel nnl c = Inr True"
          "\<forall>c' \<in> set pre. passes pr cel m v L_max nel nnl c' = Inr False"
      by blast
    then have "(se = [] \<and> w = - 1)
           \<or> (se \<noteq> [] \<and> w = - 4
               \<and> (\<forall>c \<in> set se. passes pr cel m v L_max nel nnl c = Inr False))
           \<or> (\<exists>pre c post. se = pre @ c # post \<and> w = collapse_target v (snd c)
               \<and> passes pr cel m v L_max nel nnl c = Inr True
               \<and> (\<forall>c' \<in> set pre. passes pr cel m v L_max nel nnl c' = Inr False))"
    proof cases
      case empty
      with w show ?thesis by simp
    next
      case all
      with w show ?thesis by simp
    next
      case found
      with w have "w = collapse_target v (snd c)" by simp
      with found show ?thesis by blast
    qed
    with nnl nel se sorted cand' show ?thesis by blast
  qed
qed

text \<open>Evaluation on the two-dimensional example.\<close>

lemma kite_kernel:
  "coarsen_identify_kernel (property example_env) unit_length kite_surface kite_mesh 0
     (7 / 10) (14 / 10) = Inr 2"
  by (simp add: coarsen_identify_kernel_def is_corner_vertex_def incident_plane_def
      kite_surface_def kite_mesh_def read_int_def read_at_def is_collapsible_def set_count_def
      Edges_find_def get_element_def block_def element_volume_def get_coords_def
      substitute_def example_env_def tri_area_def unit_length_def Let_def)

lemma kite_short_edges:
  "short_edges_loop kite_surface kite_mesh 0 (7 / 10) [1, 2, 3, 4] []
     = Inr [(3 / 10, \<lparr>edge_first = 0, edge_second = 1, length_e = 3 / 10,
                       adjacent_elements = [0, 3]\<rparr>),
            (5 / 10, \<lparr>edge_first = 0, edge_second = 2, length_e = 5 / 10,
                       adjacent_elements = [0, 1]\<rparr>),
            (6 / 10, \<lparr>edge_first = 0, edge_second = 3, length_e = 6 / 10,
                       adjacent_elements = [1, 2]\<rparr>)]"
  by (simp add: kite_surface_def kite_mesh_def is_collapsible_def set_count_def
      Edges_find_def)

lemma kite_halo_kernel:
  "coarsen_identify_kernel (property example_env) unit_length kite_surface kite_halo_mesh 0
     (7 / 10) (14 / 10) = Inr 2"
  by (simp add: coarsen_identify_kernel_def is_corner_vertex_def incident_plane_def
      kite_surface_def kite_halo_mesh_def kite_mesh_def read_int_def read_at_def
      is_collapsible_def set_count_def
      Edges_find_def get_element_def block_def element_volume_def get_coords_def
      substitute_def example_env_def tri_area_def unit_length_def Let_def)

lemma kite_halo_neighbours:
  "read_int (NNList kite_halo_mesh) 0 = Inr [1, 2, 3, 4]"
  "\<not> candidate_neighbour kite_surface kite_halo_mesh 0 (7 / 10) 1"
  "candidate_neighbour kite_surface kite_halo_mesh 0 (7 / 10) 2"
  "candidate_neighbour kite_surface kite_halo_mesh 0 (7 / 10) 3"
  "\<not> candidate_neighbour kite_surface kite_halo_mesh 0 (7 / 10) 4"
  by (simp_all add: candidate_neighbour_def kite_surface_def kite_halo_mesh_def kite_mesh_def
      read_int_def is_collapsible_def set_count_def Edges_find_def)

text \<open>
  C1. In \<open>coarsen_identify_kernel(v, L_low, L_max)\<close> a candidate target \<open>w\<close> is
  rejected (the kernel does not return \<open>w\<close>) whenever some element \<open>e\<close> incident to
  \<open>v\<close> but not to \<open>w\<close> has, after substituting \<open>v\<close> by \<open>w\<close>, a signed volume (area
  in two dimensions) whose ratio to the original signed volume is at most \<open>10\<^sup>-\<^sup>3\<close>.
  The elements recorded for the edge \<open>(v, w)\<close> are, by invariant I3, elements that
  contain \<open>w\<close>, so an element not incident to \<open>w\<close> is one the collapse would rewrite.
\<close>

theorem coarsen_identify_kernel_rejects_inverting:
  assumes k: "coarsen_identify_kernel pr cel surf m v L_low L_max = Inr r"
    and w: "0 \<le> w"
    and nel: "read_int (NEList m) v = Inr nel" and e: "e \<in> set nel"
    and n: "get_element m (if number_dimensions m = 2 then 3 else 4) e = Inr n"
    and notw: "w \<notin> set n"
    and I3: "\<forall>edge. Edges_find (Edges m) v w = Some edge
                \<longrightarrow> adjacent_elements_contain m edge w"
    and ov: "element_volume pr m (number_dimensions m) n = Inr orig_volume"
    and nv: "element_volume pr m (number_dimensions m) (substitute v w n) = Inr new_volume"
    and nz: "orig_volume \<noteq> 0"
    and ratio: "new_volume / orig_volume \<le> 1 / 1000"
  shows "r \<noteq> w"
proof
  assume "r = w"
  with coarsen_identify_kernel_result [OF k] w nel obtain nnl se pre c post where
    se: "\<forall>c \<in> set se. \<exists>nn \<in> set nnl. candidate surf m v L_low nn c
                \<and> collapse_target v (snd c) = nn"
    and c: "se = pre @ c # post" "w = collapse_target v (snd c)"
      "passes pr cel m v L_max nel nnl c = Inr True"
    by auto
  from c(1) se obtain nn where "candidate surf m v L_low nn c" "collapse_target v (snd c) = nn"
    by auto
  with c(2) have edge: "Edges_find (Edges m) v w = Some (snd c)"
    by (simp add: candidate_def)
  with I3 have adj: "adjacent_elements_contain m (snd c) w" by blast
  have "set_count (adjacent_elements (snd c)) e = 0"
  proof (rule ccontr)
    assume "set_count (adjacent_elements (snd c)) e \<noteq> 0"
    then have "e \<in> set (adjacent_elements (snd c))"
      by (simp add: set_count_def split: if_splits)
    with adj n have "w \<in> set n"
      by (auto simp: adjacent_elements_contain_def list_all_iff)
    with notw show False by simp
  qed
  from volume_check_False [OF passes_True [OF c(3)] e this] c(2) n ov nv ratio
  show False by simp
qed

text \<open>
  On \<open>kite_mesh\<close>, collapsing vertex 0 onto vertex 1 would turn the element
  \<open>(0, 2, 3)\<close> of area \<open>2\<close> into \<open>(1, 2, 3)\<close> of area \<open>-4\<close>; the kernel returns
  vertex 2.
\<close>

theorem coarsen_identify_kernel_rejects_inverting_witness:
  "coarsen_identify_kernel (property example_env) unit_length kite_surface kite_mesh 0
     (7 / 10) (14 / 10) = Inr 2
   \<and> get_element kite_mesh 3 1 = Inr [0, 2, 3]
   \<and> element_volume (property example_env) kite_mesh 2 [0, 2, 3] = Inr 2
   \<and> element_volume (property example_env) kite_mesh 2 (substitute 0 1 [0, 2, 3]) = Inr (- 4)
   \<and> (2::int) \<noteq> 1"
proof -
  have nd: "number_dimensions kite_mesh = 2"
    by (simp add: kite_mesh_def)
  have nel: "read_int (NEList kite_mesh) 0 = Inr [0, 1, 2, 3]"
    by (simp add: kite_mesh_def read_int_def)
  have e: "(1::int) \<in> set [0, 1, 2, 3]" by simp
  have n: "get_element kite_mesh (if number_dimensions kite_mesh = 2 then 3 else 4) 1
             = Inr [0, 2, 3]"
    by (simp add: kite_mesh_def get_element_def block_def)
  have notw: "(1::int) \<notin> set [0, 2, 3]" by simp
  have I3: "\<forall>edge. Edges_find (Edges kite_mesh) 0 1 = Some edge
                \<longrightarrow> adjacent_elements_contain kite_mesh edge 1"
    by (simp add: kite_mesh_def Edges_find_def adjacent_elements_contain_def get_element_def
        block_def)
  have ov: "element_volume (property example_env) kite_mesh (number_dimensions kite_mesh)
              [0, 2, 3] = Inr 2"
    by (simp add: kite_mesh_def element_volume_def read_at_def get_coords_def block_def
        example_env_def tri_area_def)
  have nv: "element_volume (property example_env) kite_mesh (number_dimensions kite_mesh)
              (substitute 0 1 [0, 2, 3]) = Inr (- 4)"
    by (simp add: kite_mesh_def element_volume_def read_at_def get_coords_def block_def
        example_env_def tri_area_def substitute_def)
  have nz: "(2::real) \<noteq> 0" and ratio: "(- 4::real) / 2 \<le> 1 / 1000" by simp_all
  have w: "(0::int) \<le> 1" by simp
  from coarsen_identify_kernel_rejects_inverting [OF kite_kernel w nel e n notw I3 ov nv nz ratio]
    kite_kernel n ov nv nd
  show ?thesis by simp
qed

text \<open>
  C2. Whenever \<open>coarsen_identify_kernel(v, L_low, L_max)\<close> returns, the result is
  \<open>-2\<close> (corner) or \<open>-3\<close> (not owned), or the kernel has built the candidate list
  \<open>short_edges\<close>, and then: every entry belongs to a neighbour \<open>nn\<close> of \<open>v\<close> that is
  not halo-received, for which \<open>is_collapsible(v, nn)\<close> holds, and whose cached edge
  length is strictly less than \<open>L_low\<close> (so a neighbour at length exactly \<open>L_low\<close> is
  never a candidate); conversely every such neighbour has its entry, and the list has
  as many entries as there are such neighbours in \<open>NNList[v]\<close>; the list is in
  ascending order of length; and the candidates are tried in that order: the result
  is \<open>-1\<close> for an empty list, \<open>-4\<close> when every candidate fails, and otherwise the
  target of the first candidate that passes, all candidates before it being no longer
  and having failed.
\<close>

theorem coarsen_identify_kernel_candidates:
  assumes "coarsen_identify_kernel pr cel surf m v L_low L_max = Inr w"
  shows "w = - 2 \<or> w = - 3 \<or>
     (\<exists>nnl nel se. read_int (NNList m) v = Inr nnl \<and> read_int (NEList m) v = Inr nel
        \<and> short_edges_loop surf m v L_low nnl [] = Inr se
        \<and> (\<forall>c \<in> set se. \<exists>nn \<in> set nnl.
               set_count (recv_halo m) nn = 0
             \<and> is_collapsible surf v nn = Inr True
             \<and> Edges_find (Edges m) v nn = Some (snd c)
             \<and> fst c = length_e (snd c)
             \<and> length_e (snd c) < L_low
             \<and> collapse_target v (snd c) = nn)
        \<and> (\<forall>nn \<in> set nnl. candidate_neighbour surf m v L_low nn \<longrightarrow>
               (\<exists>c \<in> set se. Edges_find (Edges m) v nn = Some (snd c)
                   \<and> fst c = length_e (snd c) \<and> collapse_target v (snd c) = nn))
        \<and> length se = length (filter (candidate_neighbour surf m v L_low) nnl)
        \<and> sorted (map fst se)
        \<and> ((se = [] \<and> w = - 1)
           \<or> (se \<noteq> [] \<and> w = - 4
               \<and> (\<forall>c \<in> set se. passes pr cel m v L_max nel nnl c = Inr False))
           \<or> (\<exists>pre c post. se = pre @ c # post \<and> w = collapse_target v (snd c)
               \<and> passes pr cel m v L_max nel nnl c = Inr True
               \<and> (\<forall>c' \<in> set pre. fst c' \<le> fst c
                      \<and> passes pr cel m v L_max nel nnl c' = Inr False))))"
proof -
  from coarsen_identify_kernel_result [OF assms] consider
      (sentinel) "w = - 2 \<or> w = - 3"
    | (run) nnl nel se where "read_int (NNList m) v = Inr nnl" "read_int (NEList m) v = Inr nel"
        "short_edges_loop surf m v L_low nnl [] = Inr se"
        "sorted (map fst se)"
        "\<forall>c \<in> set se. \<exists>nn \<in> set nnl. candidate surf m v L_low nn c
                \<and> collapse_target v (snd c) = nn"
        "(se = [] \<and> w = - 1)
           \<or> (se \<noteq> [] \<and> w = - 4
               \<and> (\<forall>c \<in> set se. passes pr cel m v L_max nel nnl c = Inr False))
           \<or> (\<exists>pre c post. se = pre @ c # post \<and> w = collapse_target v (snd c)
               \<and> passes pr cel m v L_max nel nnl c = Inr True
               \<and> (\<forall>c' \<in> set pre. passes pr cel m v L_max nel nnl c' = Inr False))"
    by blast
  then show ?thesis
  proof cases
    case sentinel
    then show ?thesis by blast
  next
    case run
    from run(5) have cand: "\<forall>c \<in> set se. \<exists>nn \<in> set nnl.
               set_count (recv_halo m) nn = 0
             \<and> is_collapsible surf v nn = Inr True
             \<and> Edges_find (Edges m) v nn = Some (snd c)
             \<and> fst c = length_e (snd c)
             \<and> length_e (snd c) < L_low
             \<and> collapse_target v (snd c) = nn"
      by (simp add: candidate_def)
    from short_edges_loop_complete [OF run(3)]
    have len: "length se = length (filter (candidate_neighbour surf m v L_low) nnl)"
      and all: "\<forall>nn \<in> set nnl. candidate_neighbour surf m v L_low nn \<longrightarrow>
                  (\<exists>c \<in> set se. candidate surf m v L_low nn c)"
      by simp_all
    have compl: "\<forall>nn \<in> set nnl. candidate_neighbour surf m v L_low nn \<longrightarrow>
               (\<exists>c \<in> set se. Edges_find (Edges m) v nn = Some (snd c)
                   \<and> fst c = length_e (snd c) \<and> collapse_target v (snd c) = nn)"
    proof (intro ballI impI)
      fix nn assume "nn \<in> set nnl" "candidate_neighbour surf m v L_low nn"
      with all obtain c where c: "c \<in> set se" "candidate surf m v L_low nn c" by blast
      from c(2) have "Edges_find (Edges m) v nn = Some (snd c)" "fst c = length_e (snd c)"
        by (simp_all add: candidate_def)
      with collapse_target_found [OF this(1)] c(1)
      show "\<exists>c \<in> set se. Edges_find (Edges m) v nn = Some (snd c)
                   \<and> fst c = length_e (snd c) \<and> collapse_target v (snd c) = nn"
        by blast
    qed
    have order: "fst c' \<le> fst c" if "se = pre @ c # post" "c' \<in> set pre" for pre c post c'
      using run(4) that by (auto simp: sorted_append)
    from run(6) order
    have "(se = [] \<and> w = - 1)
           \<or> (se \<noteq> [] \<and> w = - 4
               \<and> (\<forall>c \<in> set se. passes pr cel m v L_max nel nnl c = Inr False))
           \<or> (\<exists>pre c post. se = pre @ c # post \<and> w = collapse_target v (snd c)
               \<and> passes pr cel m v L_max nel nnl c = Inr True
               \<and> (\<forall>c' \<in> set pre. fst c' \<le> fst c
                      \<and> passes pr cel m v L_max nel nnl c' = Inr False))"
      by (elim disjE exE conjE) (simp, simp, blast)
    with run(1-4) cand compl len show ?thesis by blast
  qed
qed

text \<open>
  On the kite with vertex 1 halo-received, vertex 0 has the neighbours 1 (received),
  2 and 3 (short edges) and 4 (edge of length \<open>0.9\<close>): the list has the two entries of
  the neighbours 2 and 3, none for vertex 1, and the result is vertex 2.
\<close>

theorem coarsen_identify_kernel_candidates_witness:
  "coarsen_identify_kernel (property example_env) unit_length kite_surface kite_halo_mesh 0
     (7 / 10) (14 / 10) = Inr 2
   \<and> (\<exists>se. short_edges_loop kite_surface kite_halo_mesh 0 (7 / 10) [1, 2, 3, 4] [] = Inr se
        \<and> sorted (map fst se)
        \<and> length se = 2
        \<and> (\<forall>c \<in> set se. length_e (snd c) < 7 / 10 \<and> collapse_target 0 (snd c) \<noteq> 1)
        \<and> (\<exists>c \<in> set se. collapse_target 0 (snd c) = 2)
        \<and> (\<exists>c \<in> set se. collapse_target 0 (snd c) = 3))"
proof -
  have "(2::int) \<noteq> - 2" "(2::int) \<noteq> - 3" by simp_all
  with coarsen_identify_kernel_candidates [OF kite_halo_kernel]
  obtain nnl se where nnl: "read_int (NNList kite_halo_mesh) 0 = Inr nnl"
    and se': "short_edges_loop kite_surface kite_halo_mesh 0 (7 / 10) nnl [] = Inr se"
    and srt: "sorted (map fst se)"
    and snd': "\<forall>c \<in> set se. \<exists>nn \<in> set nnl.
               set_count (recv_halo kite_halo_mesh) nn = 0
             \<and> is_collapsible kite_surface 0 nn = Inr True
             \<and> Edges_find (Edges kite_halo_mesh) 0 nn = Some (snd c)
             \<and> fst c = length_e (snd c)
             \<and> length_e (snd c) < 7 / 10
             \<and> collapse_target 0 (snd c) = nn"
    and cmp': "\<forall>nn \<in> set nnl.
               candidate_neighbour kite_surface kite_halo_mesh 0 (7 / 10) nn \<longrightarrow>
               (\<exists>c \<in> set se. Edges_find (Edges kite_halo_mesh) 0 nn = Some (snd c)
                   \<and> fst c = length_e (snd c) \<and> collapse_target 0 (snd c) = nn)"
    and len': "length se
        = length (filter (candidate_neighbour kite_surface kite_halo_mesh 0 (7 / 10)) nnl)"
    by blast
  from nnl kite_halo_neighbours(1) have n: "nnl = [1, 2, 3, 4]" by simp
  note se = se' [unfolded n] and snd = snd' [unfolded n] and cmp = cmp' [unfolded n]
    and len = len' [unfolded n]
  from len kite_halo_neighbours have l2: "length se = 2" by simp
  have h: "set_count (recv_halo kite_halo_mesh) 1 \<noteq> 0"
    by (simp add: kite_halo_mesh_def set_count_def)
  have a: "\<forall>c \<in> set se. length_e (snd c) < 7 / 10 \<and> collapse_target 0 (snd c) \<noteq> 1"
  proof
    fix c assume "c \<in> set se"
    with snd obtain nn where "set_count (recv_halo kite_halo_mesh) nn = 0"
      "length_e (snd c) < 7 / 10" "collapse_target 0 (snd c) = nn"
      by blast
    with h show "length_e (snd c) < 7 / 10 \<and> collapse_target 0 (snd c) \<noteq> 1"
      by auto
  qed
  from cmp kite_halo_neighbours(3) have b: "\<exists>c \<in> set se. collapse_target 0 (snd c) = 2"
    by simp blast
  from cmp kite_halo_neighbours(4) have c: "\<exists>c \<in> set se. collapse_target 0 (snd c) = 3"
    by simp blast
  from kite_halo_kernel se srt l2 a b c show ?thesis by blast
qed

section \<open>Properties of the smoother\<close>

subsection \<open>The quality tolerance\<close>

lemma block_good_q [simp]:
  "get_element (s\<lparr>good_q := a\<rparr>) n e = get_element s n e"
  "get_coords (s\<lparr>good_q := a\<rparr>) nd v = get_coords s nd v"
  "get_metric (s\<lparr>good_q := a\<rparr>) v = get_metric s v"
  by (simp_all add: get_element_def get_coords_def get_metric_def)

lemma element_quality_good_q [simp]:
  "element_quality pr (s\<lparr>good_q := a\<rparr>) n = element_quality pr s n"
  by (simp add: element_quality_def)

lemma mark_boundary_good_q [simp]:
  "mark_boundary (s\<lparr>good_q := a\<rparr>) is b = mark_boundary s is b"
  by (induction "is" arbitrary: b) (simp_all cong: deep_cong)

lemma skipped_good_q [simp]:
  "skipped (s\<lparr>good_q := a\<rparr>) colour b i = skipped s colour b i"
  by (simp add: skipped_def cong: deep_cong)

lemma fill_colour_sets_good_q [simp]:
  "fill_colour_sets (s\<lparr>good_q := a\<rparr>) colour b is cs = fill_colour_sets s colour b is cs"
  by (induction "is" arbitrary: cs) (simp_all cong: deep_cong)

lemma init_quality_good_q [simp]:
  "init_quality pr (s\<lparr>good_q := a\<rparr>) is qsum = init_quality pr s is qsum"
  by (induction "is" arbitrary: qsum) (simp_all cong: deep_cong)

lemma init_cache_good_q:
  "init_cache env (s\<lparr>good_q := a\<rparr>) method = init_cache env s method"
  by (simp add: init_cache_def Let_def cong: deep_cong)

text \<open>
  C10. The \<open>quality_tol\<close> argument of \<open>smooth\<close> has no effect on the result: for every
  mesh, method and \<open>max_iterations\<close>, two runs that differ only in \<open>quality_tol\<close> end
  in the same outcome (the same final state, with its coordinates, metrics and quality
  cache, or the same failure), because \<open>init_cache\<close> overwrites \<open>good_q\<close> after the
  assignment from \<open>quality_tol\<close>.
\<close>

theorem smooth_quality_tol_irrelevant:
  "smooth env s method max_iterations quality_tol
     = smooth env s method max_iterations quality_tol'"
  by (simp add: smooth_def Let_def init_cache_good_q)

subsection \<open>Interpolation and commit\<close>

lemma generate_location_loop_None_iff:
  "generate_location_loop pr s node p ies st = Inr r \<Longrightarrow>
   (r = None) = (\<exists>ie \<in> set ies. \<exists>v. moved_element_volume pr s node p ie = Inr v \<and> v < 0)"
proof (induction ies arbitrary: st)
  case Nil
  then show ?case by (cases st) auto
next
  case (Cons ie ies)
  obtain l best_e tol where st: "st = (l, best_e, tol)"
    by (cases st) auto
  from Cons.prems obtain n x0 x1 x2 x3 where
    n: "get_element s 4 ie = Inr n" and n0: "\<not> n ! 0 < 0"
    and x: "get_coords s 3 (n ! 0) = Inr x0" "get_coords s 3 (n ! 1) = Inr x1"
      "get_coords s 3 (n ! 2) = Inr x2" "get_coords s 3 (n ! 3) = Inr x3"
    unfolding st by (auto simp: ebind_eq_Inr split: if_splits)
  have mv: "moved_element_volume pr s node p ie = Inr (moved_volume pr node p n x0 x1 x2 x3)"
    using n x by (simp add: moved_element_volume_def)
  show ?case
  proof (cases "moved_volume pr node p n x0 x1 x2 x3 < 0")
    case True
    with Cons.prems n n0 x have "r = None"
      unfolding st by simp
    with True mv show ?thesis by auto
  next
    case False
    with Cons.prems n n0 x obtain st' where
      "generate_location_loop pr s node p ies st' = Inr r"
      unfolding st by (auto simp: Let_def split: if_splits)
    from Cons.IH [OF this] False mv show ?thesis by auto
  qed
qed


lemma length_fold_update [simp]:
  "length (fold (\<lambda>j a. a[k + j := vals ! j]) js arr) = length arr"
  by (induction js arbitrary: arr) simp_all

lemma nth_fold_update:
  "i < length arr \<Longrightarrow>
   fold (\<lambda>j a. a[k + j := vals ! j]) js arr ! i
     = (if \<exists>j \<in> set js. i = k + j then vals ! (i - k) else arr ! i)"
  by (induction js arbitrary: arr) (auto simp: nth_list_update)

lemma write_block_length:
  "write_block arr blk node vals = Inr arr' \<Longrightarrow> length arr' = length arr"
  by (auto simp: write_block_def split: if_splits)

lemma write_block_same:
  assumes "write_block arr blk node vals = Inr arr'" and "length vals = blk"
  shows "block arr' blk node = Inr vals"
proof -
  from assms(1) have r: "0 \<le> node" "nat node * blk + blk \<le> length arr"
    and arr': "arr' = fold (\<lambda>j a. a[nat node * blk + j := vals ! j]) [0..<blk] arr"
    by (auto simp: write_block_def split: if_splits)
  have "take blk (drop (nat node * blk) arr') = vals"
  proof (rule nth_equalityI)
    show "length (take blk (drop (nat node * blk) arr')) = length vals"
      using r assms(2) by (simp add: arr')
  next
    fix i assume "i < length (take blk (drop (nat node * blk) arr'))"
    then have i: "i < blk" by simp
    with r show "take blk (drop (nat node * blk) arr') ! i = vals ! i"
      by (simp add: arr' nth_fold_update)
  qed
  with r show ?thesis
    by (simp add: block_def arr')
qed

lemma write_block_other:
  assumes "write_block arr blk node vals = Inr arr'" and "v \<noteq> node"
  shows "block arr' blk v = block arr blk v"
proof (cases "0 \<le> v \<and> nat v * blk + blk \<le> length arr")
  case False
  with write_block_length [OF assms(1)] show ?thesis
    by (auto simp: block_def)
next
  case True
  from assms(1) have r: "0 \<le> node" "nat node * blk + blk \<le> length arr"
    and arr': "arr' = fold (\<lambda>j a. a[nat node * blk + j := vals ! j]) [0..<blk] arr"
    by (auto simp: write_block_def split: if_splits)
  from True assms(2) r(1) have ne: "nat v \<noteq> nat node" by arith
  have "take blk (drop (nat v * blk) arr') = take blk (drop (nat v * blk) arr)"
  proof (rule nth_equalityI)
    show "length (take blk (drop (nat v * blk) arr'))
            = length (take blk (drop (nat v * blk) arr))"
      by (simp add: arr')
  next
    fix i assume "i < length (take blk (drop (nat v * blk) arr'))"
    then have i: "i < blk" by simp
    have "\<not> (\<exists>j \<in> set [0..<blk]. nat v * blk + i = nat node * blk + j)"
    proof
      assume "\<exists>j \<in> set [0..<blk]. nat v * blk + i = nat node * blk + j"
      then obtain j where j: "j < blk" "nat v * blk + i = nat node * blk + j" by auto
      then have "(nat v * blk + i) div blk = (nat node * blk + j) div blk" by simp
      with i j(1) have "nat v = nat node" by simp
      with ne show False by simp
    qed
    with True i show "take blk (drop (nat v * blk) arr') ! i
            = take blk (drop (nat v * blk) arr) ! i"
      by (simp add: arr' nth_fold_update)
  qed
  with True write_block_length [OF assms(1)] show ?thesis
    by (simp add: block_def)
qed


lemma laplacian_3d_position_result:
  "laplacian_3d_position env s node = Inr (valid, p) \<Longrightarrow> valid \<and> length p = 3"
  by (auto simp: laplacian_3d_position_def ebind_eq_Inr Let_def split: prod.splits)

lemma interpolate_metric_length:
  "interpolate_metric mt l n is = Inr mp \<Longrightarrow> length mp = length is"
  by (induction "is" arbitrary: mp) (auto simp: ebind_eq_Inr)

lemma generate_location_3d_length:
  assumes "generate_location_3d pr s node p = Inr (Some mp)"
  shows "length mp = 6"
proof -
  from assms obtain nel r0 where
    r: "(case r0 of None \<Rightarrow> Inr None
             | Some (l, best_e, tol) \<Rightarrow>
                 if best_e = - 1 then Inl AssertionFailed
                 else if \<not> tol > - DBL_EPSILON then Inl AssertionFailed
                 else ebind (get_element s 4 best_e) (\<lambda>n.
                        if n ! 0 < 0 then Inl AssertionFailed
                        else ebind (interpolate_metric (metric s) l n [0..<6]) (\<lambda>mp.
                               Inr (Some mp)))) = Inr (Some mp)"
    by (auto simp: generate_location_3d_def ebind_eq_Inr)
  then obtain l best_e tol where r0: "r0 = Some (l, best_e, tol)"
    by (cases r0) auto
  from r obtain n where "interpolate_metric (metric s) l n [0..<6] = Inr mp"
    unfolding r0 by (auto simp: ebind_eq_Inr split: if_splits)
  from interpolate_metric_length [OF this] show ?thesis by simp
qed

lemma generate_location_3d_None_iff:
  assumes "generate_location_3d pr s node p = Inr r"
  shows "\<exists>nel. read_int (NEList s) node = Inr nel
     \<and> (r = None) = (\<exists>ie \<in> set nel. \<exists>v. moved_element_volume pr s node p ie = Inr v \<and> v < 0)"
proof -
  from assms obtain nel r0 where nel: "read_int (NEList s) node = Inr nel"
    and loop: "generate_location_loop pr s node p nel ([- 1, - 1, - 1, - 1], - 1, - 1) = Inr r0"
    and r: "(case r0 of None \<Rightarrow> Inr None
             | Some (l, best_e, tol) \<Rightarrow>
                 if best_e = - 1 then Inl AssertionFailed
                 else if \<not> tol > - DBL_EPSILON then Inl AssertionFailed
                 else ebind (get_element s 4 best_e) (\<lambda>n.
                        if n ! 0 < 0 then Inl AssertionFailed
                        else ebind (interpolate_metric (metric s) l n [0..<6]) (\<lambda>mp.
                               Inr (Some mp)))) = Inr r"
    by (auto simp: generate_location_3d_def ebind_eq_Inr)
  from r have "(r = None) = (r0 = None)"
    by (auto simp: ebind_eq_Inr split: option.splits if_splits)
  with generate_location_loop_None_iff [OF loop] nel show ?thesis
    by simp
qed

lemma commit_result:
  assumes "commit s node p mp = Inr s'" and "length p = 3" and "length mp = 6"
  shows "s' = s\<lparr>coords := coords s', metric := metric s'\<rparr>"
    and "get_coords s' 3 node = Inr p" and "get_metric s' node = Inr mp"
    and "v \<noteq> node \<Longrightarrow> get_coords s' 3 v = get_coords s 3 v"
    and "v \<noteq> node \<Longrightarrow> get_metric s' v = get_metric s v"
proof -
  from assms(1) obtain c m where c: "write_block (coords s) 3 node p = Inr c"
    and m: "write_block (metric s) 6 node mp = Inr m"
    and s': "s' = s\<lparr>coords := c, metric := m\<rparr>"
    by (auto simp: commit_def ebind_eq_Inr)
  show "s' = s\<lparr>coords := coords s', metric := metric s'\<rparr>"
    by (simp add: s')
  show "get_coords s' 3 node = Inr p"
    using write_block_same [OF c] assms(2) by (simp add: get_coords_def s')
  show "get_metric s' node = Inr mp"
    using write_block_same [OF m] assms(3) by (simp add: get_metric_def s')
  show "v \<noteq> node \<Longrightarrow> get_coords s' 3 v = get_coords s 3 v"
    using write_block_other [OF c] by (simp add: get_coords_def s')
  show "v \<noteq> node \<Longrightarrow> get_metric s' v = get_metric s v"
    using write_block_other [OF m] by (simp add: get_metric_def s')
qed

subsection \<open>The quality cache\<close>

lemma functional_Linf_loop_frame:
  "functional_Linf_loop pr s ies pq = Inr (s1, f) \<Longrightarrow> s1 = s\<lparr>quality := quality s1\<rparr>"
proof (induction ies arbitrary: s pq)
  case Nil
  then show ?case by simp
next
  case (Cons ie ies)
  from Cons.prems obtain q where q: "read_int (quality s) ie = Inr q"
    by (auto simp: ebind_eq_Inr)
  show ?case
  proof (cases "q < 0")
    case False
    with Cons.prems q have "functional_Linf_loop pr s ies (min pq q) = Inr (s1, f)"
      by simp
    from Cons.IH [OF this] show ?thesis .
  next
    case True
    with Cons.prems q obtain qs q' where
      "functional_Linf_loop pr (s\<lparr>quality := qs\<rparr>) ies (min pq q') = Inr (s1, f)"
      by (auto simp: ebind_eq_Inr split: if_splits)
    from Cons.IH [OF this] have "s1 = s\<lparr>quality := qs, quality := quality s1\<rparr>" .
    then show ?thesis by simp
  qed
qed

lemma functional_Linf_frame:
  "functional_Linf pr s node = Inr (s1, f) \<Longrightarrow> s1 = s\<lparr>quality := quality s1\<rparr>"
  by (auto simp: functional_Linf_def ebind_eq_Inr dest: functional_Linf_loop_frame)

lemma update_quality_frame:
  "update_quality pr s e = Inr s' \<Longrightarrow> s' = s\<lparr>quality := quality s'\<rparr>"
  by (auto simp: update_quality_def ebind_eq_Inr)

lemma update_qualities_frame:
  "update_qualities pr s ies = Inr s' \<Longrightarrow> s' = s\<lparr>quality := quality s'\<rparr>"
proof (induction ies arbitrary: s)
  case Nil
  then show ?case by simp
next
  case (Cons ie ies)
  from Cons.prems obtain s1 where a: "update_quality pr s ie = Inr s1"
    and b: "update_qualities pr s1 ies = Inr s'"
    by (auto simp: ebind_eq_Inr)
  from update_quality_frame [OF a] Cons.IH [OF b]
  have "s' = s\<lparr>quality := quality s1, quality := quality s'\<rparr>" by simp
  then show ?case by simp
qed

lemma get_quality_update [simp]:
  "get_element (s\<lparr>quality := a\<rparr>) n e = get_element s n e"
  "get_coords (s\<lparr>quality := a\<rparr>) nd v = get_coords s nd v"
  "get_metric (s\<lparr>quality := a\<rparr>) v = get_metric s v"
  by (simp_all add: get_element_def get_coords_def get_metric_def)

lemma element_quality_quality_update [simp]:
  "element_quality pr (s\<lparr>quality := a\<rparr>) n = element_quality pr s n"
  by (simp add: element_quality_def)







subsection \<open>Evaluation on the star mesh\<close>

lemma star_position:
  "laplacian_3d_position example_env star_mesh 0 = Inr (True, [0, 0, 0])"
  by (simp add: laplacian_3d_position_def get_node_patch_def read_int_def star_mesh_def
      get_x_def get_y_def get_z_def identity_metric_def example_env_def diagonal_solve_def
      read_at_def Let_def)

lemma DBL_MAX_ge_1: "1 \<le> DBL_MAX"
proof -
  have "(1::real) \<le> 2 - 1 / 2 ^ 52" by simp
  moreover have "(1::real) \<le> 2 ^ 1023" by (rule one_le_power) simp
  ultimately have "(1::real) * 1 \<le> (2 - 1 / 2 ^ 52) * 2 ^ 1023"
    by (intro mult_mono) simp_all
  then show ?thesis by (simp add: DBL_MAX_def)
qed

lemma min_DBL_MAX [simp]: "q \<le> 1 \<Longrightarrow> min DBL_MAX q = q"
  using DBL_MAX_ge_1 by simp

lemma DBL_EPSILON_pos [simp]: "0 < DBL_EPSILON"
  by (simp add: DBL_EPSILON_def)

lemma star_location:
  "generate_location_3d (property example_env) star_mesh 0 [0, 0, 0]
     = Inr (Some identity_metric)"
  by (simp add: generate_location_3d_def read_int_def star_mesh_def get_element_def
      get_coords_def block_def moved_volume_def tet_volume_def example_env_def
      identity_metric_def DBL_EPSILON_def upt_rec Let_def)

lemma star_commit:
  "commit star_mesh 0 [0, 0, 0] identity_metric
     = Inr (star_mesh\<lparr>coords := [0, 0, 0,  1, 0, 0,  0, 1, 0,  0, 0, 1,  - 1, - 1, - 1]\<rparr>)"
  by (simp add: commit_def write_block_def star_mesh_def identity_metric_def upt_rec)

subsection \<open>Evaluation on the dented mesh\<close>

lemma dent_position:
  "laplacian_3d_position example_env dent_mesh 0 = Inr (True, [0, 0, - 5])"
  by (simp add: laplacian_3d_position_def get_node_patch_def read_int_def dent_mesh_def
      get_x_def get_y_def get_z_def identity_metric_def example_env_def diagonal_solve_def
      read_at_def Let_def)

lemma dent_location:
  "generate_location_3d (property example_env) dent_mesh 0 [0, 0, - 5] = Inr None"
  by (simp add: generate_location_3d_def read_int_def dent_mesh_def get_element_def
      get_coords_def block_def moved_volume_def tet_volume_def example_env_def
      identity_metric_def DBL_EPSILON_def upt_rec Let_def)

lemma dent_kernel:
  "laplacian_3d_kernel example_env dent_mesh 0 = Inr (False, dent_mesh)"
  by (simp add: laplacian_3d_kernel_def dent_position dent_location)

lemma dent_volume_0:
  "moved_element_volume (property example_env) dent_mesh 0 [0, 0, - 5] 0 = Inr (5 / 3)"
  by (simp add: moved_element_volume_def dent_mesh_def get_element_def
      get_coords_def block_def moved_volume_def tet_volume_def example_env_def Let_def)

lemma dent_volume_3:
  "moved_element_volume (property example_env) dent_mesh 0 [0, 0, - 5] 3 = Inr (- 5 / 6)"
  by (simp add: moved_element_volume_def dent_mesh_def get_element_def
      get_coords_def block_def moved_volume_def tet_volume_def example_env_def Let_def)

lemma star_laplacian:
  "laplacian_3d_kernel example_env star_mesh 0
     = Inr (True, star_mesh\<lparr>coords := [0, 0, 0,  1, 0, 0,  0, 1, 0,  0, 0, 1,  - 1, - 1, - 1]\<rparr>)"
  by (simp add: laplacian_3d_kernel_def star_position star_location star_commit)

subsection \<open>Evaluation on the mesh with the exact gain\<close>











subsection \<open>The Laplacian kernel\<close>

text \<open>
  C4, amended. Whenever the Laplacian kernel returns for a vertex \<open>v\<close> with proposed
  position \<open>p\<close>, it rejects exactly when some simplex incident to \<open>v\<close> has a negative
  volume with \<open>v\<close> at \<open>p\<close> (one such simplex is enough); a rejection leaves the state
  unchanged, and in the other case it commits \<open>p\<close> and the interpolated metric and
  changes nothing but coordinates and metric.
\<close>

theorem laplacian_3d_kernel_accepts_iff:
  assumes "laplacian_3d_kernel env s node = Inr (moved, s')"
  shows "\<exists>p nel. laplacian_3d_position env s node = Inr (True, p)
     \<and> read_int (NEList s) node = Inr nel
     \<and> (moved \<longleftrightarrow> \<not> (\<exists>ie \<in> set nel. \<exists>v.
            moved_element_volume (property env) s node p ie = Inr v \<and> v < 0))
     \<and> (\<not> moved \<longrightarrow> s' = s)
     \<and> (moved \<longrightarrow> (\<exists>mp. generate_location_3d (property env) s node p = Inr (Some mp)
            \<and> get_coords s' 3 node = Inr p \<and> get_metric s' node = Inr mp
            \<and> s' = s\<lparr>coords := coords s', metric := metric s'\<rparr>))"
proof -
  from assms obtain valid p where pos: "laplacian_3d_position env s node = Inr (valid, p)"
    by (auto simp: laplacian_3d_kernel_def ebind_eq_Inr)
  from laplacian_3d_position_result [OF pos] have valid: valid and p: "length p = 3"
    by simp_all
  from assms pos valid obtain r where gl: "generate_location_3d (property env) s node p = Inr r"
    and rest: "(case r of None \<Rightarrow> Inr (False, s)
                | Some mp \<Rightarrow> ebind (commit s node p mp) (\<lambda>s'. Inr (True, s')))
               = Inr (moved, s')"
    by (auto simp: laplacian_3d_kernel_def ebind_eq_Inr)
  from generate_location_3d_None_iff [OF gl] obtain nel
    where nel: "read_int (NEList s) node = Inr nel"
      and iff: "(r = None) = (\<exists>ie \<in> set nel. \<exists>v.
            moved_element_volume (property env) s node p ie = Inr v \<and> v < 0)"
    by blast
  show ?thesis
  proof (cases r)
    case None
    with rest have "\<not> moved" "s' = s" by simp_all
    with pos valid nel iff None show ?thesis by auto
  next
    case (Some mp)
    with rest have moved: moved and c: "commit s node p mp = Inr s'"
      by (auto simp: ebind_eq_Inr)
    from gl Some have mp: "length mp = 6"
      by (auto dest: generate_location_3d_length)
    from commit_result(1-3) [OF c p mp] pos valid nel iff Some gl moved show ?thesis
      by auto
  qed
qed

text \<open>
  On \<open>dent_mesh\<close> the kernel rejects, and the theorem yields an incident element that
  the move would invert.
\<close>

theorem laplacian_3d_kernel_accepts_iff_witness:
  "laplacian_3d_kernel example_env dent_mesh 0 = Inr (False, dent_mesh)
   \<and> (\<exists>ie \<in> set [0, 1, 2, 3, 4, 5]. \<exists>v.
         moved_element_volume (property example_env) dent_mesh 0 [0, 0, - 5] ie = Inr v \<and> v < 0)"
proof -
  from laplacian_3d_kernel_accepts_iff [OF dent_kernel]
  obtain p nel where "laplacian_3d_position example_env dent_mesh 0 = Inr (True, p)"
    and "read_int (NEList dent_mesh) 0 = Inr nel"
    and "False \<longleftrightarrow> \<not> (\<exists>ie \<in> set nel. \<exists>v.
            moved_element_volume (property example_env) dent_mesh 0 p ie = Inr v \<and> v < 0)"
    by auto
  moreover have "read_int (NEList dent_mesh) 0 = Inr [0, 1, 2, 3, 4, 5]"
    by (simp add: dent_mesh_def read_int_def)
  ultimately show ?thesis
    using dent_position dent_kernel by simp
qed

text \<open>
  C4 as stated lets the kernel reject only when every incident simplex has a negative
  volume at the new position. On \<open>dent_mesh\<close> the proposed position is \<open>(0, 0, -5)\<close>
  and the kernel rejects, although element 0 has the positive volume \<open>5/3\<close> there.
\<close>

theorem laplacian_rejects_one_inverted_counterexample:
  "laplacian_3d_kernel example_env dent_mesh 0 = Inr (False, dent_mesh)
   \<and> laplacian_3d_position example_env dent_mesh 0 = Inr (True, [0, 0, - 5])
   \<and> read_int (NEList dent_mesh) 0 = Inr [0, 1, 2, 3, 4, 5]
   \<and> moved_element_volume (property example_env) dent_mesh 0 [0, 0, - 5] 0 = Inr (5 / 3)
   \<and> \<not> (5 / 3 < (0::real))"
  by (simp add: dent_kernel dent_position dent_volume_0) (simp add: dent_mesh_def read_int_def)

subsection \<open>The smart-Laplacian kernel\<close>




subsection \<open>The threshold \<open>good_q\<close>\<close>

text \<open>
  C6 says that \<open>good_q\<close> is the arithmetic mean of the cached qualities. Evaluated on
  \<open>deleted_slot_mesh\<close>, for any quality function: the cache becomes \<open>[1, q]\<close>, with \<open>q\<close>
  the quality of the live element, and \<open>good_q\<close> becomes \<open>q / 2\<close>, which is not the
  mean \<open>(1 + q) / 2\<close> of the cache. The deleted element is counted in the divisor but
  its cache entry is not added to the sum.
\<close>

theorem init_cache_deleted_element:
  "\<exists>s1 q. init_cache (env\<lparr>GebremedhinManne := \<lambda>n nn sd rc. [1, 2, 3, 4]\<rparr>)
             deleted_slot_mesh method = Inr s1
     \<and> q = lipnikov (property env) [0, 0, 0] [1, 0, 0] [0, 1, 0] [0, 0, 1]
               identity_metric identity_metric identity_metric identity_metric
     \<and> quality s1 = [1, q]
     \<and> good_q s1 = q / 2
     \<and> good_q s1 \<noteq> sum_list (quality s1) / real (length (quality s1))"
  by (simp add: init_cache_def deleted_slot_mesh_def upt_2 upt_4 get_element_def block_def
      read_at_def read_int_def write_int_def element_quality_def get_coords_def get_metric_def
      skipped_def identity_metric_def Let_def)

subsection \<open>What a sweep can change\<close>

lemma same_frame_refl [simp]: "same_frame s s"
  by (simp add: same_frame_def)

lemma same_frame_trans: "same_frame s t \<Longrightarrow> same_frame t u \<Longrightarrow> same_frame s u"
  by (simp add: same_frame_def)

lemma untouched_refl [simp]: "untouched v s s"
  by (simp add: untouched_def)

lemma untouched_trans: "untouched v s t \<Longrightarrow> untouched v t u \<Longrightarrow> untouched v s u"
  by (simp add: untouched_def)

lemma quality_update_frame [simp]:
  "same_frame s (s\<lparr>quality := q\<rparr>)" "untouched v s (s\<lparr>quality := q\<rparr>)"
  by (simp_all add: same_frame_def untouched_def)

lemma commit_frame:
  assumes "commit s node p mp = Inr s'"
  shows "same_frame s s'" and "v \<noteq> node \<Longrightarrow> untouched v s s'"
proof -
  from assms obtain c m where c: "write_block (coords s) 3 node p = Inr c"
    and m: "write_block (metric s) 6 node mp = Inr m"
    and s': "s' = s\<lparr>coords := c, metric := m\<rparr>"
    by (auto simp: commit_def ebind_eq_Inr)
  show "same_frame s s'"
    by (simp add: s' same_frame_def)
  show "v \<noteq> node \<Longrightarrow> untouched v s s'"
    using write_block_other [OF c] write_block_other [OF m]
    by (simp add: untouched_def get_coords_def get_metric_def s')
qed

lemma functional_Linf_frame2:
  assumes "functional_Linf pr s node = Inr (s1, f)"
  shows "same_frame s s1" and "untouched v s s1"
  by (subst functional_Linf_frame [OF assms], simp)+

lemma update_qualities_frame2:
  assumes "update_qualities pr s ies = Inr s'"
  shows "same_frame s s'" and "untouched v s s'"
  by (subst update_qualities_frame [OF assms], simp)+

lemma laplacian_3d_kernel_frame:
  assumes "laplacian_3d_kernel env s node = Inr (moved, s')"
  shows "same_frame s s'" and "v \<noteq> node \<Longrightarrow> untouched v s s'"
proof -
  from assms consider (reject) "s' = s"
    | (accept) p mp where "commit s node p mp = Inr s'"
    by (auto simp: laplacian_3d_kernel_def ebind_eq_Inr split: if_splits option.splits)
  then show "same_frame s s'"
    by cases (auto dest: commit_frame(1))
  from assms consider (reject) "s' = s"
    | (accept) p mp where "commit s node p mp = Inr s'"
    by (auto simp: laplacian_3d_kernel_def ebind_eq_Inr split: if_splits option.splits)
  then show "v \<noteq> node \<Longrightarrow> untouched v s s'"
    by cases (auto dest: commit_frame(2))
qed

lemma smart_laplacian_3d_kernel_frame:
  assumes "smart_laplacian_3d_kernel env s node = Inr (moved, s')"
  shows "same_frame s s'" and "v \<noteq> node \<Longrightarrow> untouched v s s'"
proof -
  from assms consider (early) "s' = s"
    | (reject) f where "functional_Linf (property env) s node = Inr (s', f)"
    | (accept) s1 f p mp s2 nel where "functional_Linf (property env) s node = Inr (s1, f)"
        "commit s1 node p mp = Inr s2" "update_qualities (property env) s2 nel = Inr s'"
    by (auto simp: smart_laplacian_3d_kernel_def ebind_eq_Inr
        split: if_splits option.splits)
  then have "same_frame s s' \<and> (v \<noteq> node \<longrightarrow> untouched v s s')"
  proof cases
    case early
    then show ?thesis by simp
  next
    case reject
    from functional_Linf_frame2 [OF this] show ?thesis by simp
  next
    case accept
    from functional_Linf_frame2 [OF accept(1)] commit_frame [OF accept(2)]
      update_qualities_frame2 [OF accept(3)]
    show ?thesis
      by (blast intro: same_frame_trans untouched_trans)
  qed
  then show "same_frame s s'" and "v \<noteq> node \<Longrightarrow> untouched v s s'"
    by simp_all
qed

lemma line_search_frame:
  "line_search pr s n0 x0 wq search nel is alpha lu = Inr (moved, s') \<Longrightarrow>
   same_frame s s' \<and> (v \<noteq> n0 \<longrightarrow> untouched v s s')"
proof (induction "is" arbitrary: alpha lu)
  case Nil
  then show ?case by simp
next
  case (Cons i "is")
  let ?a = "alpha * 0.5"
  let ?x = "[x0 ! 0 + ?a * search ! 0, x0 ! 1 + ?a * search ! 1, x0 ! 2 + ?a * search ! 2]"
  from Cons.prems obtain r where gl: "generate_location_3d pr s n0 ?x = Inr r"
    by (auto simp: ebind_eq_Inr Let_def)
  have "(\<exists>a l. line_search pr s n0 x0 wq search nel is a l = Inr (moved, s'))
      \<or> (\<exists>q p mp. commit (s\<lparr>quality := q\<rparr>) n0 p mp = Inr s')"
  proof (cases r)
    case None
    with Cons.prems gl show ?thesis
      by (auto simp: Let_def)
  next
    case (Some new_m0)
    with Cons.prems gl obtain nq where
      nq: "new_quality_loop pr s n0 ?x new_m0 wq nel [] = Inr nq"
      by (auto simp: ebind_eq_Inr Let_def)
    show ?thesis
    proof (cases nq)
      case None
      with Cons.prems gl Some nq show ?thesis
        by (auto simp: Let_def)
    next
      case new_quality: (Some new_quality)
      with Cons.prems gl Some nq show ?thesis
        by (auto simp: ebind_eq_Inr Let_def split: if_splits)
    qed
  qed
  then consider
      (again) a l where "line_search pr s n0 x0 wq search nel is a l = Inr (moved, s')"
    | (accept) q p mp where "commit (s\<lparr>quality := q\<rparr>) n0 p mp = Inr s'"
    by blast
  then show ?case
  proof cases
    case again
    from Cons.IH [OF this] show ?thesis .
  next
    case accept
    from commit_frame [OF this] quality_update_frame
    show ?thesis
      by (blast intro: same_frame_trans untouched_trans)
  qed
qed

lemma optimisation_linf_3d_kernel_frame:
  assumes "optimisation_linf_3d_kernel env s node = Inr (moved, s')"
  shows "same_frame s s'" and "v \<noteq> node \<Longrightarrow> untouched v s s'"
proof -
  from assms consider (good) "s' = s"
    | (search) x0 wq search nel alpha where
        "line_search (property env) s node x0 wq search nel [0..<10] alpha False
           = Inr (moved, s')"
    by (auto simp: optimisation_linf_3d_kernel_def ebind_eq_Inr Let_def split: if_splits)
  then have "same_frame s s' \<and> (v \<noteq> node \<longrightarrow> untouched v s s')"
  proof cases
    case good
    then show ?thesis by simp
  next
    case search
    from line_search_frame [OF this] show ?thesis .
  qed
  then show "same_frame s s'" and "v \<noteq> node \<Longrightarrow> untouched v s s'"
    by simp_all
qed

lemma smooth_kernel_frame:
  assumes "smooth_kernel env method s node = Inr (moved, s')"
  shows "same_frame s s'" and "v \<noteq> node \<Longrightarrow> untouched v s s'"
  using assms laplacian_3d_kernel_frame [of env s node moved s']
    smart_laplacian_3d_kernel_frame [of env s node moved s']
    optimisation_linf_3d_kernel_frame [of env s node moved s']
  by (auto simp: smooth_kernel_def split: if_splits)


lemma apply_kernel_frame:
  assumes k: "frames v kern"
    and a: "apply_kernel kern (s, active) node = Inr (s', active')"
  shows "same_frame s s' \<and> (v \<noteq> node \<longrightarrow> untouched v s s')"
proof -
  from a obtain moved where "kern s node = Inr (moved, s')"
    by (auto simp: apply_kernel_def ebind_eq_Inr split: if_splits)
  with k show ?thesis
    unfolding frames_def by blast
qed

lemma sweep_nodes_frame:
  assumes k: "frames v kern"
  shows "sweep_nodes kern first nodes (s, active) = Inr (s', active') \<Longrightarrow>
         v \<notin> set nodes \<Longrightarrow> same_frame s s' \<and> untouched v s s'"
proof (induction nodes arbitrary: s active)
  case Nil
  then show ?case by simp
next
  case (Cons node nodes)
  from Cons.prems(2) have ne: "v \<noteq> node" and rest: "v \<notin> set nodes" by simp_all
  from Cons.prems(1) consider
      (skip) "sweep_nodes kern first nodes (s, active) = Inr (s', active')"
    | (run) a s1 a1 where "apply_kernel kern (s, a) node = Inr (s1, a1)"
        "sweep_nodes kern first nodes (s1, a1) = Inr (s', active')"
    by (cases first) (auto simp: ebind_eq_Inr split: if_splits)
  then show ?case
  proof cases
    case skip
    from Cons.IH [OF this rest] show ?thesis .
  next
    case run
    from apply_kernel_frame [OF k run(1)] ne Cons.IH [OF run(2) rest]
    show ?thesis
      by (blast intro: same_frame_trans untouched_trans)
  qed
qed

lemma halo_fold_other:
  "v \<notin> set vs \<Longrightarrow>
   block (fold (\<lambda>v a. case write_block a blk v (incoming v) of Inl e \<Rightarrow> a | Inr a' \<Rightarrow> a')
            vs arr) blk v = block arr blk v"
proof (induction vs arbitrary: arr)
  case Nil
  then show ?case by simp
next
  case (Cons u vs)
  then have ne: "v \<noteq> u" and rest: "v \<notin> set vs" by simp_all
  show ?case
  proof (cases "write_block arr blk u (incoming u)")
    case (Inl e)
    with Cons.IH [OF rest] show ?thesis by simp
  next
    case (Inr a')
    from write_block_other [OF Inr ne] Cons.IH [OF rest, of a'] Inr
    show ?thesis by simp
  qed
qed

lemma halo_update_other:
  "v \<notin> set (concat rcv) \<Longrightarrow> block (halo_update blk rcv incoming arr) blk v = block arr blk v"
  unfolding halo_update_def by (rule halo_fold_other)

lemma exchange_frame:
  assumes "exchange env halo_elements iter ic s = Inr s'"
    and "mpi_nparts s \<le> 1 \<or> v \<notin> set (concat (recv s))"
  shows "same_frame s s' \<and> untouched v s s'"
proof (cases "mpi_nparts s > 1")
  case False
  with assms(1) show ?thesis by (simp add: exchange_def)
next
  case True
  let ?t = "s\<lparr>coords := halo_update 3 (recv s) (incoming_coords env iter ic) (coords s),
              metric := halo_update 6 (recv s) (incoming_metric env iter ic) (metric s)\<rparr>"
  from True assms(1) have u: "update_qualities (property env) ?t halo_elements = Inr s'"
    by (simp add: exchange_def)
  from True assms(2) have v: "v \<notin> set (concat (recv s))" by simp
  have "same_frame s ?t"
    by (simp add: same_frame_def)
  moreover have "untouched v s ?t"
    using halo_update_other [OF v]
    by (simp add: untouched_def get_coords_def get_metric_def)
  ultimately show ?thesis
    using update_qualities_frame2 [OF u]
    by (blast intro: same_frame_trans untouched_trans)
qed

lemma sweep_colours_frame:
  assumes k: "frames v kern"
  shows "sweep_colours env kern halo_elements iter ics (s, active) = Inr (s', active') \<Longrightarrow>
         uncoloured v s \<Longrightarrow> mpi_nparts s \<le> 1 \<or> v \<notin> set (concat (recv s)) \<Longrightarrow>
         same_frame s s' \<and> untouched v s s'"
proof (induction ics arbitrary: s active)
  case Nil
  then show ?case by simp
next
  case (Cons ic ics)
  from Cons.prems(1) obtain s1 a1 s2 where
    nodes: "(case map_of (colour_sets s) ic of
              None \<Rightarrow> Inr (s, active)
            | Some nodes \<Rightarrow> sweep_nodes kern (iter = 0) nodes (s, active)) = Inr (s1, a1)"
    and ex: "exchange env halo_elements iter ic s1 = Inr s2"
    and rest: "sweep_colours env kern halo_elements iter ics (s2, a1) = Inr (s', active')"
    by (auto simp: ebind_eq_Inr)
  have f1: "same_frame s s1 \<and> untouched v s s1"
  proof (cases "map_of (colour_sets s) ic")
    case None
    with nodes show ?thesis by simp
  next
    case (Some ns)
    then have "(ic, ns) \<in> set (colour_sets s)" by (rule map_of_SomeD)
    with Cons.prems(2) have "v \<notin> set ns" by (auto simp: uncoloured_def)
    with sweep_nodes_frame [OF k] nodes Some show ?thesis by simp
  qed
  then have p1: "mpi_nparts s1 \<le> 1 \<or> v \<notin> set (concat (recv s1))" and u1: "uncoloured v s1"
    using Cons.prems(2,3) by (simp_all add: same_frame_def uncoloured_def)
  from exchange_frame [OF ex p1] have f2: "same_frame s1 s2 \<and> untouched v s1 s2" .
  then have p2: "mpi_nparts s2 \<le> 1 \<or> v \<notin> set (concat (recv s2))" and u2: "uncoloured v s2"
    using p1 u1 by (simp_all add: same_frame_def uncoloured_def)
  from Cons.IH [OF rest u2 p2] f1 f2 show ?case
    by (blast intro: same_frame_trans untouched_trans)
qed

lemma sweeps_frame:
  assumes k: "frames v kern"
  shows "sweeps env kern halo_elements max_colour iters (s, active) = Inr (s', active') \<Longrightarrow>
         uncoloured v s \<Longrightarrow> mpi_nparts s \<le> 1 \<or> v \<notin> set (concat (recv s)) \<Longrightarrow>
         same_frame s s' \<and> untouched v s s'"
proof (induction iters arbitrary: s active)
  case Nil
  then show ?case by simp
next
  case (Cons iter iters)
  from Cons.prems(1) obtain s1 a1 where
    one: "sweep_colours env kern halo_elements iter [1..max_colour] (s, active) = Inr (s1, a1)"
    and rest: "sweeps env kern halo_elements max_colour iters (s1, a1) = Inr (s', active')"
    by (auto simp: ebind_eq_Inr)
  from sweep_colours_frame [OF k one Cons.prems(2,3)]
  have f1: "same_frame s s1 \<and> untouched v s s1" .
  then have p1: "mpi_nparts s1 \<le> 1 \<or> v \<notin> set (concat (recv s1))" and u1: "uncoloured v s1"
    using Cons.prems(2,3) by (simp_all add: same_frame_def uncoloured_def)
  from Cons.IH [OF rest u1 p1] f1 show ?case
    by (blast intro: same_frame_trans untouched_trans)
qed


lemma write_True_marked:
  assumes "write_int isb x True = Inr isb'"
  shows "marked isb' x" and "marked isb v \<Longrightarrow> marked isb' v"
  using assms by (auto simp: write_int_def marked_def nth_list_update split: if_splits)

lemma mark_faces_mono:
  "mark_faces bnd i n js isb = Inr isb' \<Longrightarrow> marked isb v \<Longrightarrow> marked isb' v"
proof (induction js arbitrary: isb)
  case Nil
  then show ?case by simp
next
  case (Cons j js)
  from Cons.prems(1) obtain b where b: "read_at bnd (i * 4 + j) = Inr b"
    by (auto simp: ebind_eq_Inr)
  show ?case
  proof (cases "b > 0")
    case False
    with Cons.prems b Cons.IH show ?thesis by simp
  next
    case True
    with Cons.prems(1) b obtain b1 b2 b3 where
      w: "write_int isb (n ! ((j + 1) mod 4)) True = Inr b1"
        "write_int b1 (n ! ((j + 2) mod 4)) True = Inr b2"
        "write_int b2 (n ! ((j + 3) mod 4)) True = Inr b3"
      and rest: "mark_faces bnd i n js b3 = Inr isb'"
      by (auto simp: ebind_eq_Inr)
    from Cons.prems(2) w have "marked b3 v"
      by (blast intro: write_True_marked(2))
    from Cons.IH [OF rest this] show ?thesis .
  qed
qed

lemma mark_faces_marks:
  "mark_faces bnd i n js isb = Inr isb' \<Longrightarrow> j \<in> set js \<Longrightarrow>
   read_at bnd (i * 4 + j) = Inr b \<Longrightarrow> b > 0 \<Longrightarrow>
   v = n ! ((j + 1) mod 4) \<or> v = n ! ((j + 2) mod 4) \<or> v = n ! ((j + 3) mod 4) \<Longrightarrow>
   marked isb' v"
proof (induction js arbitrary: isb)
  case Nil
  then show ?case by simp
next
  case (Cons a js)
  from Cons.prems(1) obtain ba where ba: "read_at bnd (i * 4 + a) = Inr ba"
    by (auto simp: ebind_eq_Inr)
  show ?case
  proof (cases "ba > 0")
    case False
    with Cons.prems ba have "j \<in> set js" "mark_faces bnd i n js isb = Inr isb'"
      by auto
    from Cons.IH [OF this(2,1) Cons.prems(3,4,5)] show ?thesis .
  next
    case True
    with Cons.prems(1) ba obtain b1 b2 b3 where
      w: "write_int isb (n ! ((a + 1) mod 4)) True = Inr b1"
        "write_int b1 (n ! ((a + 2) mod 4)) True = Inr b2"
        "write_int b2 (n ! ((a + 3) mod 4)) True = Inr b3"
      and rest: "mark_faces bnd i n js b3 = Inr isb'"
      by (auto simp: ebind_eq_Inr)
    show ?thesis
    proof (cases "j = a")
      case True
      with Cons.prems(5) w have "marked b3 v"
        by (blast intro: write_True_marked)
      from mark_faces_mono [OF rest this] show ?thesis .
    next
      case False
      with Cons.prems(2) have "j \<in> set js" by simp
      from Cons.IH [OF rest this Cons.prems(3,4,5)] show ?thesis .
    qed
  qed
qed

lemma mark_boundary_mono:
  "mark_boundary s is isb = Inr isb' \<Longrightarrow> marked isb v \<Longrightarrow> marked isb' v"
proof (induction "is" arbitrary: isb)
  case Nil
  then show ?case by simp
next
  case (Cons i "is")
  from Cons.prems(1) obtain n where n: "get_element s 4 (int i) = Inr n"
    by (auto simp: ebind_eq_Inr)
  show ?case
  proof (cases "n ! 0 = - 1")
    case True
    with Cons.prems n Cons.IH show ?thesis by simp
  next
    case False
    with Cons.prems(1) n obtain b1 where
      f: "mark_faces (boundary s) i n [0..<4] isb = Inr b1"
      and rest: "mark_boundary s is b1 = Inr isb'"
      by (auto simp: ebind_eq_Inr)
    from Cons.IH [OF rest mark_faces_mono [OF f Cons.prems(2)]] show ?thesis .
  qed
qed

lemma mark_boundary_marks:
  "mark_boundary s is isb = Inr isb' \<Longrightarrow> i \<in> set is \<Longrightarrow>
   get_element s 4 (int i) = Inr n \<Longrightarrow> n ! 0 \<noteq> - 1 \<Longrightarrow> j < 4 \<Longrightarrow>
   read_at (boundary s) (i * 4 + j) = Inr b \<Longrightarrow> b > 0 \<Longrightarrow>
   v = n ! ((j + 1) mod 4) \<or> v = n ! ((j + 2) mod 4) \<or> v = n ! ((j + 3) mod 4) \<Longrightarrow>
   marked isb' v"
proof (induction "is" arbitrary: isb)
  case Nil
  then show ?case by simp
next
  case (Cons a "is")
  from Cons.prems(1) obtain na where na: "get_element s 4 (int a) = Inr na"
    by (auto simp: ebind_eq_Inr)
  show ?case
  proof (cases "na ! 0 = - 1")
    case True
    with Cons.prems(1) na have rest: "mark_boundary s is isb = Inr isb'" by simp
    from True na Cons.prems(2,3,4) have "i \<in> set is" by auto
    from Cons.IH [OF rest this Cons.prems(3-8)] show ?thesis .
  next
    case False
    with Cons.prems(1) na obtain b1 where
      f: "mark_faces (boundary s) a na [0..<4] isb = Inr b1"
      and rest: "mark_boundary s is b1 = Inr isb'"
      by (auto simp: ebind_eq_Inr)
    show ?thesis
    proof (cases "i = a")
      case True
      with na Cons.prems(3) have "na = n" by simp
      with True f Cons.prems(5-8) have "marked b1 v"
        by (auto intro: mark_faces_marks)
      from mark_boundary_mono [OF rest this] show ?thesis .
    next
      case False
      with Cons.prems(2) have "i \<in> set is" by simp
      from Cons.IH [OF rest this Cons.prems(3-8)] show ?thesis .
    qed
  qed
qed

lemma on_boundary_marked:
  assumes "on_boundary s v" and "mark_boundary s [0..<NElements s] isb = Inr isb'"
  shows "marked isb' v"
proof -
  from assms(1) obtain i j where i: "i \<in> set [0..<NElements s]" and j: "j < 4"
    and body: "case get_element s 4 (int i) of
           Inl e \<Rightarrow> False
         | Inr n \<Rightarrow> n ! 0 \<noteq> - 1
             \<and> (case read_at (boundary s) (i * 4 + j) of Inl e \<Rightarrow> False | Inr b \<Rightarrow> b > 0)
             \<and> (v = n ! ((j + 1) mod 4) \<or> v = n ! ((j + 2) mod 4) \<or> v = n ! ((j + 3) mod 4))"
    by (auto simp: on_boundary_def list_ex_iff)
  from body obtain n where n: "get_element s 4 (int i) = Inr n"
    by (cases "get_element s 4 (int i)") auto
  with body have n0: "n ! 0 \<noteq> - 1"
    and rb: "case read_at (boundary s) (i * 4 + j) of Inl e \<Rightarrow> False | Inr b \<Rightarrow> b > 0"
    and v: "v = n ! ((j + 1) mod 4) \<or> v = n ! ((j + 2) mod 4) \<or> v = n ! ((j + 3) mod 4)"
    by simp_all
  from rb obtain b where "read_at (boundary s) (i * 4 + j) = Inr b" "b > 0"
    by (cases "read_at (boundary s) (i * 4 + j)") auto
  note i n n0 j this v
  from mark_boundary_marks [OF assms(2) this] show ?thesis .
qed


lemma colour_sets_push_back_member:
  "(c', nodes) \<in> set (colour_sets_push_back c i cs) \<Longrightarrow> x \<in> set nodes \<Longrightarrow>
   x = i \<or> (\<exists>c0 nodes0. (c0, nodes0) \<in> set cs \<and> x \<in> set nodes0)"
proof (induction cs)
  case Nil
  then show ?case by simp
next
  case (Cons a cs)
  obtain c0 ns where a: "a = (c0, ns)" by (cases a)
  consider (less) "c < c0" | (eq) "c = c0" | (greater) "\<not> c < c0" "c \<noteq> c0"
    by blast
  then show ?case
  proof cases
    case less
    with Cons.prems a show ?thesis by fastforce
  next
    case eq
    with Cons.prems a show ?thesis by fastforce
  next
    case greater
    with Cons.prems a have "(c', nodes) = (c0, ns)
        \<or> (c', nodes) \<in> set (colour_sets_push_back c i cs)"
      by simp
    then show ?thesis
    proof
      assume "(c', nodes) = (c0, ns)"
      with Cons.prems(2) a show ?thesis by auto
    next
      assume "(c', nodes) \<in> set (colour_sets_push_back c i cs)"
      from Cons.IH [OF this Cons.prems(2)] show ?thesis by auto
    qed
  qed
qed

lemma fill_colour_sets_member:
  "fill_colour_sets s colour isb is cs = Inr cs' \<Longrightarrow>
   (c', nodes) \<in> set cs' \<Longrightarrow> x \<in> set nodes \<Longrightarrow>
   (\<exists>c0 nodes0. (c0, nodes0) \<in> set cs \<and> x \<in> set nodes0)
   \<or> (\<exists>i \<in> set is. x = int i \<and> skipped s colour isb i = Inr False)"
proof (induction "is" arbitrary: cs)
  case Nil
  then show ?case by auto
next
  case (Cons i "is")
  from Cons.prems(1) obtain skip where skip: "skipped s colour isb i = Inr skip"
    by (auto simp: ebind_eq_Inr)
  show ?case
  proof (cases skip)
    case True
    with Cons.prems(1) skip have "fill_colour_sets s colour isb is cs = Inr cs'" by simp
    from Cons.IH [OF this Cons.prems(2,3)] show ?thesis by auto
  next
    case False
    with Cons.prems(1) skip obtain c where
      rest: "fill_colour_sets s colour isb is (colour_sets_push_back c (int i) cs) = Inr cs'"
      by (auto simp: ebind_eq_Inr)
    from Cons.IH [OF rest Cons.prems(2,3)] consider
        (old) c0 nodes0 where "(c0, nodes0) \<in> set (colour_sets_push_back c (int i) cs)"
          "x \<in> set nodes0"
      | (new) k where "k \<in> set is" "x = int k" "skipped s colour isb k = Inr False"
      by blast
    then show ?thesis
    proof cases
      case old
      from colour_sets_push_back_member [OF this] skip False show ?thesis by auto
    next
      case new
      then show ?thesis by auto
    qed
  qed
qed

lemma skipped_False:
  assumes "skipped s colour isb i = Inr False"
  shows "\<not> marked isb (int i)" and "is_owned_node s (int i)"
    and "read_int (NNList s) (int i) \<noteq> Inr []"
  using assms
  by (auto simp: skipped_def ebind_eq_Inr read_at_def read_int_def marked_def split: if_splits)

lemma init_cache_uncoloured:
  assumes "init_cache env s method = Inr s1" and "immovable s v"
  shows "uncoloured v s1"
proof -
  from assms(1) obtain isb cs where
    mb: "mark_boundary s [0..<NElements s] (replicate (NNodes s) False) = Inr isb"
    and fc: "fill_colour_sets s (GebremedhinManne env (NNodes s) (NNList s) (send s) (recv s))
               isb [0..<NNodes s] [] = Inr cs"
    and cs: "colour_sets s1 = cs"
    by (auto simp: init_cache_def ebind_eq_Inr Let_def split: if_splits)
  show ?thesis
    unfolding uncoloured_def
  proof (intro allI impI)
    fix c nodes assume "(c, nodes) \<in> set (colour_sets s1)"
    with cs have mem: "(c, nodes) \<in> set cs" by simp
    show "v \<notin> set nodes"
    proof
      assume "v \<in> set nodes"
      from fill_colour_sets_member [OF fc mem this] obtain i where
        i: "v = int i" "skipped s (GebremedhinManne env (NNodes s) (NNList s) (send s) (recv s))
               isb i = Inr False"
        by auto
      from skipped_False [OF i(2)] i(1) on_boundary_marked [OF _ mb, of v] assms(2)
      show False
        by (auto simp: immovable_def)
    qed
  qed
qed

lemma init_cache_frame:
  assumes "init_cache env s method = Inr s1"
  shows "untouched v s s1" and "recv s1 = recv s" and "mpi_nparts s1 = mpi_nparts s"
  using assms
  by (auto simp: init_cache_def ebind_eq_Inr Let_def untouched_def get_coords_def
      get_metric_def split: if_splits)

lemma smooth_kernel_frames: "frames v (smooth_kernel env method)"
  unfolding frames_def using smooth_kernel_frame by blast

lemma smooth_using_smooth_kernel:
  "smooth_using env (smooth_kernel env method) s method max_iterations quality_tol
     = smooth env s method max_iterations quality_tol"
  by (simp add: smooth_using_def smooth_def)

lemma apply_kernel_same_frame:
  assumes k: "frames v kern"
    and a: "apply_kernel kern (s, active) node = Inr (s', active')"
  shows "same_frame s s'"
  using apply_kernel_frame [OF k a] by simp

lemma sweep_nodes_same_frame:
  assumes k: "frames v kern"
  shows "sweep_nodes kern first nodes (s, active) = Inr (s', active') \<Longrightarrow> same_frame s s'"
proof (induction nodes arbitrary: s active)
  case Nil
  then show ?case by simp
next
  case (Cons node nodes)
  from Cons.prems(1) consider
      (skip) "sweep_nodes kern first nodes (s, active) = Inr (s', active')"
    | (run) a s1 a1 where "apply_kernel kern (s, a) node = Inr (s1, a1)"
        "sweep_nodes kern first nodes (s1, a1) = Inr (s', active')"
    by (cases first) (auto simp: ebind_eq_Inr split: if_splits)
  then show ?case
  proof cases
    case skip
    from Cons.IH [OF this] show ?thesis .
  next
    case run
    from apply_kernel_same_frame [OF k run(1)] Cons.IH [OF run(2)]
    show ?thesis
      by (rule same_frame_trans)
  qed
qed

lemma exchange_same_frame:
  assumes "exchange env halo_elements iter ic s = Inr s'"
  shows "same_frame s s'"
proof (cases "mpi_nparts s > 1")
  case False
  with assms(1) show ?thesis by (simp add: exchange_def)
next
  case True
  let ?t = "s\<lparr>coords := halo_update 3 (recv s) (incoming_coords env iter ic) (coords s),
              metric := halo_update 6 (recv s) (incoming_metric env iter ic) (metric s)\<rparr>"
  from True assms(1) have u: "update_qualities (property env) ?t halo_elements = Inr s'"
    by (simp add: exchange_def)
  have "same_frame s ?t"
    by (simp add: same_frame_def)
  with update_qualities_frame2(1) [OF u] show ?thesis
    by (rule same_frame_trans [rotated])
qed

lemma uncoloured_same_frame: "same_frame s s' \<Longrightarrow> uncoloured v s \<Longrightarrow> uncoloured v s'"
  by (simp add: same_frame_def uncoloured_def)

text \<open>
  A vertex outside the colour sets: the sweeps do not depend on what the kernel does
  at it.
\<close>

lemma sweep_nodes_cong:
  assumes "\<And>t node. node \<noteq> v \<Longrightarrow> kern t node = kern' t node"
  shows "v \<notin> set nodes \<Longrightarrow> sweep_nodes kern first nodes st = sweep_nodes kern' first nodes st"
proof (induction nodes arbitrary: st)
  case Nil
  show ?case by (cases st) simp
next
  case (Cons node nodes)
  obtain s active where st: "st = (s, active)" by (cases st)
  from Cons.prems have ne: "node \<noteq> v" and rest: "v \<notin> set nodes" by auto
  have a: "apply_kernel kern x node = apply_kernel kern' x node" for x
    using assms [OF ne] by (cases x) (simp add: apply_kernel_def)
  have ih: "sweep_nodes kern first nodes = sweep_nodes kern' first nodes"
    by (rule ext) (rule Cons.IH [OF rest])
  show ?case
    unfolding st using ih by (cases first) (simp_all add: a cong: if_cong)
qed

lemma sweep_colours_cong:
  assumes eq: "\<And>t node. node \<noteq> v \<Longrightarrow> kern t node = kern' t node"
    and k: "frames v kern'"
  shows "uncoloured v s \<Longrightarrow>
         sweep_colours env kern halo_elements iter ics (s, active)
           = sweep_colours env kern' halo_elements iter ics (s, active)"
proof (induction ics arbitrary: s active)
  case Nil
  show ?case by simp
next
  case (Cons ic ics)
  let ?first = "\<lambda>kern. case map_of (colour_sets s) ic of
              None \<Rightarrow> Inr (s, active)
            | Some nodes \<Rightarrow> sweep_nodes kern (iter = 0) nodes (s, active)"
  have first: "?first kern = ?first kern'"
  proof (cases "map_of (colour_sets s) ic")
    case None
    then show ?thesis by simp
  next
    case (Some ns)
    then have "(ic, ns) \<in> set (colour_sets s)" by (rule map_of_SomeD)
    with Cons.prems have "v \<notin> set ns" by (auto simp: uncoloured_def)
    from sweep_nodes_cong [OF eq this] Some show ?thesis by simp
  qed
  have rest: "sweep_colours env kern halo_elements iter ics (s2, a1)
        = sweep_colours env kern' halo_elements iter ics (s2, a1)"
    if "?first kern' = Inr (s1, a1)" "exchange env halo_elements iter ic s1 = Inr s2"
    for s1 a1 s2
  proof -
    have "same_frame s s1"
    proof (cases "map_of (colour_sets s) ic")
      case None
      with that(1) show ?thesis by simp
    next
      case (Some ns)
      with that(1) sweep_nodes_same_frame [OF k] show ?thesis by simp
    qed
    with exchange_same_frame [OF that(2)] have "same_frame s s2"
      by (rule same_frame_trans [rotated])
    from uncoloured_same_frame [OF this Cons.prems] show ?thesis
      by (rule Cons.IH)
  qed
  show ?case
  proof (cases "?first kern'")
    case (Inl e)
    with first show ?thesis by simp
  next
    case (Inr st1)
    obtain s1 a1 where st1: "st1 = (s1, a1)" by (cases st1)
    show ?thesis
    proof (cases "exchange env halo_elements iter ic s1")
      case (Inl e)
      with first Inr st1 show ?thesis by simp
    next
      case ex: (Inr s2)
      from rest [OF Inr [unfolded st1] ex] first Inr st1 ex show ?thesis by simp
    qed
  qed
qed


lemma sweep_colours_same_frame:
  assumes k: "frames v kern"
  shows "sweep_colours env kern halo_elements iter ics (s, active) = Inr (s', active') \<Longrightarrow>
         same_frame s s'"
proof (induction ics arbitrary: s active)
  case Nil
  then show ?case by simp
next
  case (Cons ic ics)
  from Cons.prems(1) obtain s1 a1 s2 where
    nodes: "(case map_of (colour_sets s) ic of
              None \<Rightarrow> Inr (s, active)
            | Some nodes \<Rightarrow> sweep_nodes kern (iter = 0) nodes (s, active)) = Inr (s1, a1)"
    and ex: "exchange env halo_elements iter ic s1 = Inr s2"
    and rest: "sweep_colours env kern halo_elements iter ics (s2, a1) = Inr (s', active')"
    by (auto simp: ebind_eq_Inr)
  have "same_frame s s1"
  proof (cases "map_of (colour_sets s) ic")
    case None
    with nodes show ?thesis by simp
  next
    case (Some ns)
    with nodes sweep_nodes_same_frame [OF k] show ?thesis by simp
  qed
  with exchange_same_frame [OF ex] Cons.IH [OF rest] show ?case
    by (blast intro: same_frame_trans)
qed

lemma sweeps_cong:
  assumes eq: "\<And>t node. node \<noteq> v \<Longrightarrow> kern t node = kern' t node"
    and k: "frames v kern'"
  shows "uncoloured v (fst st) \<Longrightarrow>
         sweeps env kern halo_elements max_colour iters st
           = sweeps env kern' halo_elements max_colour iters st"
proof (induction iters arbitrary: st)
  case Nil
  show ?case by simp
next
  case (Cons iter iters)
  obtain s active where st: "st = (s, active)" by (cases st)
  with Cons.prems have u: "uncoloured v s" by simp
  note one = sweep_colours_cong [OF eq k u, of env halo_elements iter "[1..max_colour]" active]
  show ?case
  proof (cases "sweep_colours env kern' halo_elements iter [1..max_colour] (s, active)")
    case (Inl e)
    with one st show ?thesis by simp
  next
    case (Inr st1)
    obtain s1 a1 where st1: "st1 = (s1, a1)" by (cases st1)
    from sweep_colours_same_frame [OF k Inr [unfolded st1]] u
    have "uncoloured v (fst st1)"
      unfolding st1 by (simp add: uncoloured_same_frame)
    from Cons.IH [OF this] one st Inr show ?thesis by simp
  qed
qed

lemma smooth_using_cong:
  assumes eq: "\<And>t node. node \<noteq> v \<Longrightarrow> kern t node = smooth_kernel env method t node"
    and v: "immovable s v"
  shows "smooth_using env kern s method max_iterations quality_tol
           = smooth env s method max_iterations quality_tol"
proof -
  let ?s0 = "if quality_tol > 0 then s\<lparr>good_q := quality_tol\<rparr> else s"
  show ?thesis
  proof (cases "init_cache env ?s0 method")
    case (Inl e)
    then show ?thesis by (simp add: smooth_using_def smooth_def)
  next
    case (Inr s1)
    from Inr have "init_cache env s method = Inr s1"
      by (simp add: init_cache_good_q split: if_splits)
    from init_cache_uncoloured [OF this v] have "uncoloured v (fst (s1, a))" for a :: "int list"
      by simp
    from sweeps_cong [OF eq smooth_kernel_frames this] Inr show ?thesis
      by (simp add: smooth_using_def smooth_def Let_def del: sweeps.simps cong: deep_cong)
  qed
qed

subsection \<open>Runs of \<open>smooth\<close> on the star mesh\<close>

lemma upt_5: "[0..<5] = [0, 1, 2, 3, 4]" by (simp add: upt_rec)

lemma replicate_5: "replicate 5 x = [x, x, x, x, x]"
  by (simp add: numeral_eq_Suc)

declare list_update_numeral [simp]


lemma star_init_cache:
  "init_cache example_env star_mesh method
     = Inr (star_mesh\<lparr>colour_sets := [(1, [0])], good_q := 499999 / 1000000\<rparr>)"
  by (simp add: init_cache_def star_mesh_def example_env_def upt_4 upt_5 get_element_def
      block_def read_at_def read_int_def write_int_def element_quality_def get_coords_def
      get_metric_def skipped_def identity_metric_def replicate_5 Let_def upt_rec)

lemma star_cached_laplacian:
  "laplacian_3d_kernel example_env
     (star_mesh\<lparr>colour_sets := [(1, [0])], good_q := 499999 / 1000000\<rparr>) 0
   = Inr (True, star_mesh\<lparr>coords := [0, 0, 0,  1, 0, 0,  0, 1, 0,  0, 0, 1,  - 1, - 1, - 1],
                           colour_sets := [(1, [0])], good_q := 499999 / 1000000\<rparr>)"
  by (simp add: laplacian_3d_kernel_def laplacian_3d_position_def get_node_patch_def
      generate_location_3d_def commit_def write_block_def
      read_int_def star_mesh_def get_x_def get_y_def get_z_def identity_metric_def
      example_env_def diagonal_solve_def read_at_def get_element_def
      get_coords_def block_def moved_volume_def tet_volume_def DBL_EPSILON_def upt_rec Let_def)

lemma star_smooth:
  "smooth example_env star_mesh ''Laplacian'' 1 (- 1)
     = Inr (star_mesh\<lparr>coords := [0, 0, 0,  1, 0, 0,  0, 1, 0,  0, 0, 1,  - 1, - 1, - 1],
                      colour_sets := [(1, [0])], good_q := 499999 / 1000000\<rparr>)"
proof -
  have a: "mpi_nparts star_mesh = 1" "NNodes star_mesh = 5" "NElements star_mesh = 4"
    "NNList star_mesh
       = [[1, 2, 3, 4], [0, 2, 3, 4], [0, 1, 3, 4], [0, 1, 2, 4], [0, 1, 2, 3]]"
    by (simp_all add: star_mesh_def)
  show ?thesis
    by (simp add: smooth_def star_init_cache smooth_kernel_def apply_kernel_def
        star_cached_laplacian a exchange_def read_int_def write_int_def replicate_5 Let_def)
qed

lemma halo_star_init_cache:
  "init_cache example_env halo_star_mesh method
     = Inr (halo_star_mesh\<lparr>colour_sets := [(1, [0])], good_q := 499999 / 1000000\<rparr>)"
  by (simp add: init_cache_def halo_star_mesh_def star_mesh_def example_env_def upt_4 upt_5
      get_element_def block_def read_at_def read_int_def write_int_def element_quality_def
      get_coords_def get_metric_def skipped_def identity_metric_def replicate_5 Let_def upt_rec)

lemma halo_star_cached_laplacian:
  "laplacian_3d_kernel example_env
     (halo_star_mesh\<lparr>colour_sets := [(1, [0])], good_q := 499999 / 1000000\<rparr>) 0
   = Inr (True, halo_star_mesh
            \<lparr>coords := [0, 0, 0,  1, 0, 0,  0, 1, 0,  0, 0, 1,  - 1, - 1, - 1],
             colour_sets := [(1, [0])], good_q := 499999 / 1000000\<rparr>)"
  by (simp add: laplacian_3d_kernel_def laplacian_3d_position_def get_node_patch_def
      generate_location_3d_def commit_def write_block_def
      read_int_def halo_star_mesh_def star_mesh_def get_x_def get_y_def get_z_def
      identity_metric_def example_env_def diagonal_solve_def read_at_def get_element_def
      get_coords_def block_def moved_volume_def tet_volume_def DBL_EPSILON_def upt_rec Let_def)

lemma halo_star_halo_elements:
  "find_halo_elements (halo_star_mesh\<lparr>colour_sets := [(1, [0])], good_q := 499999 / 1000000\<rparr>)
     [0..<4] = Inr [1, 2, 3]"
  by (simp add: halo_star_mesh_def star_mesh_def upt_4 get_element_def block_def)

lemma halo_star_exchange:
  "exchange example_env [1, 2, 3] 0 1
     (halo_star_mesh\<lparr>coords := [0, 0, 0,  1, 0, 0,  0, 1, 0,  0, 0, 1,  - 1, - 1, - 1],
                     colour_sets := [(1, [0])], good_q := 499999 / 1000000\<rparr>)
   = Inr (halo_star_mesh
            \<lparr>coords := [0, 0, 0,  1, 0, 0,  0, 1, 0,  0, 0, 1,  - 1, - 1, - 3 / 2],
             quality := [499999 / 1000000, 1 / 2, 1 / 2, 1 / 2],
             colour_sets := [(1, [0])], good_q := 499999 / 1000000\<rparr>)"
  by (simp add: exchange_def halo_update_def write_block_def update_quality_def
      element_quality_def write_int_def halo_star_mesh_def star_mesh_def
      get_element_def get_coords_def get_metric_def block_def
      example_env_def identity_metric_def upt_rec)

lemma halo_star_smooth:
  "smooth example_env halo_star_mesh ''Laplacian'' 1 (- 1)
     = Inr (halo_star_mesh
            \<lparr>coords := [0, 0, 0,  1, 0, 0,  0, 1, 0,  0, 0, 1,  - 1, - 1, - 3 / 2],
             quality := [499999 / 1000000, 1 / 2, 1 / 2, 1 / 2],
             colour_sets := [(1, [0])], good_q := 499999 / 1000000\<rparr>)"
proof -
  have a: "mpi_nparts halo_star_mesh = 2" "NNodes halo_star_mesh = 5"
    "NElements halo_star_mesh = 4"
    "NNList halo_star_mesh
       = [[1, 2, 3, 4], [0, 2, 3, 4], [0, 1, 3, 4], [0, 1, 2, 4], [0, 1, 2, 3]]"
    "allreduce_max example_env 1 = 1"
    by (simp_all add: halo_star_mesh_def star_mesh_def example_env_def)
  show ?thesis
    by (simp add: smooth_def halo_star_init_cache smooth_kernel_def apply_kernel_def
        halo_star_cached_laplacian halo_star_halo_elements halo_star_exchange a
        read_int_def write_int_def replicate_5 Let_def)
qed

text \<open>
  C9, as the code has it. For every vertex \<open>v\<close> that lies on the boundary (appears in
  a boundary facet), is not owned by the current partition, or has an empty neighbour
  list, for every smoothing method and every number of sweeps:

  \<^item> no smoothing kernel is applied to \<open>v\<close>: the outcome of \<open>smooth\<close> (final state or
    failure) is the same when the kernel of the method is replaced by any kernel that
    differs from it at \<open>v\<close> only;

  \<^item> when \<open>smooth\<close> returns, the coordinates and the metric of \<open>v\<close> are unchanged,
    provided the run has a single partition or \<open>v\<close> is not in a receive list of the
    halo exchange.
\<close>

theorem smooth_leaves_immovable_vertices:
  assumes v: "on_boundary s v \<or> \<not> is_owned_node s v \<or> read_int (NNList s) v = Inr []"
  shows "(\<forall>kern. (\<forall>t node. node \<noteq> v \<longrightarrow> kern t node = smooth_kernel env method t node) \<longrightarrow>
            smooth_using env kern s method max_iterations quality_tol
              = smooth env s method max_iterations quality_tol)
     \<and> (\<forall>s'. smooth env s method max_iterations quality_tol = Inr s'
              \<and> (mpi_nparts s \<le> 1 \<or> v \<notin> set (concat (recv s))) \<longrightarrow>
            get_coords s' 3 v = get_coords s 3 v \<and> get_metric s' v = get_metric s v)"
proof (intro conjI allI impI)
  from v have imm: "immovable s v" by (simp add: immovable_def)
  {
    fix kern
    assume "\<forall>t node. node \<noteq> v \<longrightarrow> kern t node = smooth_kernel env method t node"
    then have "\<And>t node. node \<noteq> v \<Longrightarrow> kern t node = smooth_kernel env method t node"
      by simp
    from smooth_using_cong [OF this imm]
    show "smooth_using env kern s method max_iterations quality_tol
              = smooth env s method max_iterations quality_tol" .
  }
  {
    fix s'
    assume a: "smooth env s method max_iterations quality_tol = Inr s'
              \<and> (mpi_nparts s \<le> 1 \<or> v \<notin> set (concat (recv s)))"
    then have run: "smooth env s method max_iterations quality_tol = Inr s'"
      and halo: "mpi_nparts s \<le> 1 \<or> v \<notin> set (concat (recv s))"
      by simp_all
    let ?s0 = "if quality_tol > 0 then s\<lparr>good_q := quality_tol\<rparr> else s"
    from run obtain s1 halo_elements max_colour active active' where
      ic: "init_cache env ?s0 method = Inr s1"
      and sw: "sweeps env (smooth_kernel env method) halo_elements max_colour
                 (0 # [1..<nat max_iterations]) (s1, active) = Inr (s', active')"
      by (auto simp: smooth_def Let_def ebind_eq_Inr simp del: sweeps.simps split: if_splits)
    from ic have ic': "init_cache env s method = Inr s1"
      by (simp add: init_cache_good_q split: if_splits)
    from init_cache_uncoloured [OF ic' imm] have u: "uncoloured v s1" .
    from init_cache_frame [OF ic'] halo
    have f1: "untouched v s s1" and h1: "mpi_nparts s1 \<le> 1 \<or> v \<notin> set (concat (recv s1))"
      by simp_all
    from sweeps_frame [OF smooth_kernel_frames sw u h1] f1
    have "untouched v s s'"
      by (blast intro: untouched_trans)
    then have "get_coords s' 3 v = get_coords s 3 v \<and> get_metric s' v = get_metric s v"
      by (simp add: untouched_def)
    then show "get_coords s' 3 v = get_coords s 3 v" and "get_metric s' v = get_metric s v"
      by simp_all
  }
qed

text \<open>
  One Laplacian sweep on \<open>halo_star_mesh\<close> (two partitions). Vertex 4 is not owned and
  is received: the run is the same with a kernel that fails at vertex 4. Vertex 1 is
  on the boundary and not received: its coordinates are unchanged.
\<close>

theorem smooth_leaves_immovable_vertices_witness:
  "\<not> is_owned_node halo_star_mesh 4
   \<and> kernel_failing_at 4 example_env ''Laplacian'' halo_star_mesh 4 = Inl AssertionFailed
   \<and> smooth_using example_env (kernel_failing_at 4 example_env ''Laplacian'') halo_star_mesh
       ''Laplacian'' 1 (- 1)
     = smooth example_env halo_star_mesh ''Laplacian'' 1 (- 1)
   \<and> smooth example_env halo_star_mesh ''Laplacian'' 1 (- 1)
     = Inr (halo_star_mesh
            \<lparr>coords := [0, 0, 0,  1, 0, 0,  0, 1, 0,  0, 0, 1,  - 1, - 1, - 3 / 2],
             quality := [499999 / 1000000, 1 / 2, 1 / 2, 1 / 2],
             colour_sets := [(1, [0])], good_q := 499999 / 1000000\<rparr>)
   \<and> on_boundary halo_star_mesh 1
   \<and> 1 \<notin> set (concat (recv halo_star_mesh))
   \<and> get_coords (halo_star_mesh
            \<lparr>coords := [0, 0, 0,  1, 0, 0,  0, 1, 0,  0, 0, 1,  - 1, - 1, - 3 / 2],
             quality := [499999 / 1000000, 1 / 2, 1 / 2, 1 / 2],
             colour_sets := [(1, [0])], good_q := 499999 / 1000000\<rparr>) 3 1
       = get_coords halo_star_mesh 3 1
   \<and> get_coords halo_star_mesh 3 1 = Inr [1, 0, 0]"
proof -
  have o: "\<not> is_owned_node halo_star_mesh 4"
    by (simp add: halo_star_mesh_def)
  have f: "kernel_failing_at 4 example_env ''Laplacian'' halo_star_mesh 4 = Inl AssertionFailed"
    by (simp add: kernel_failing_at_def)
  have agree: "\<forall>t node. node \<noteq> 4 \<longrightarrow>
      kernel_failing_at 4 example_env ''Laplacian'' t node
        = smooth_kernel example_env ''Laplacian'' t node"
    by (simp add: kernel_failing_at_def)
  have b: "on_boundary halo_star_mesh 1"
    by (simp add: on_boundary_def halo_star_mesh_def star_mesh_def upt_4 get_element_def
        block_def read_at_def)
  have r: "1 \<notin> set (concat (recv halo_star_mesh))"
    by (simp add: halo_star_mesh_def)
  have c: "get_coords halo_star_mesh 3 1 = Inr [1, 0, 0]"
    by (simp add: halo_star_mesh_def star_mesh_def get_coords_def block_def)
  from smooth_leaves_immovable_vertices [of halo_star_mesh 4 example_env "''Laplacian''" 1 "- 1"]
    o agree
  have 1: "smooth_using example_env (kernel_failing_at 4 example_env ''Laplacian'')
      halo_star_mesh ''Laplacian'' 1 (- 1)
     = smooth example_env halo_star_mesh ''Laplacian'' 1 (- 1)"
    by blast
  from smooth_leaves_immovable_vertices [of halo_star_mesh 1 example_env "''Laplacian''" 1 "- 1"]
    b r halo_star_smooth
  have 2: "get_coords (halo_star_mesh
            \<lparr>coords := [0, 0, 0,  1, 0, 0,  0, 1, 0,  0, 0, 1,  - 1, - 1, - 3 / 2],
             quality := [499999 / 1000000, 1 / 2, 1 / 2, 1 / 2],
             colour_sets := [(1, [0])], good_q := 499999 / 1000000\<rparr>) 3 1
       = get_coords halo_star_mesh 3 1"
    by blast
  from o f 1 halo_star_smooth b r 2 c show ?thesis by simp
qed

text \<open>
  C9 as stated also covers a vertex that is not owned in a distributed run. On
  \<open>halo_star_mesh\<close> (two partitions) vertex 4 is not owned, and one sweep of \<open>smooth\<close>
  ends with its coordinates replaced by those its owner sent in the halo exchange.
\<close>

theorem smooth_moves_halo_vertex_counterexample:
  "smooth example_env halo_star_mesh ''Laplacian'' 1 (- 1)
     = Inr (halo_star_mesh
            \<lparr>coords := [0, 0, 0,  1, 0, 0,  0, 1, 0,  0, 0, 1,  - 1, - 1, - 3 / 2],
             quality := [499999 / 1000000, 1 / 2, 1 / 2, 1 / 2],
             colour_sets := [(1, [0])], good_q := 499999 / 1000000\<rparr>)
   \<and> \<not> is_owned_node halo_star_mesh 4
   \<and> get_coords halo_star_mesh 3 4 = Inr [- 1, - 1, - 1]
   \<and> get_coords (halo_star_mesh
            \<lparr>coords := [0, 0, 0,  1, 0, 0,  0, 1, 0,  0, 0, 1,  - 1, - 1, - 3 / 2],
             quality := [499999 / 1000000, 1 / 2, 1 / 2, 1 / 2],
             colour_sets := [(1, [0])], good_q := 499999 / 1000000\<rparr>) 3 4
       = Inr [- 1, - 1, - 3 / 2]"
  by (simp add: halo_star_smooth)
     (simp add: halo_star_mesh_def star_mesh_def get_coords_def block_def)

end
